theory Spec2Isabelle
  imports Complex_Main
begin

section \<open>Values of the program\<close>

text \<open>
  A Python \<open>str\<close> is a sequence of Unicode code points, so it is modelled as a list of
  naturals; \<open>py\<close> writes an ASCII literal of the source as such a list.

  A Python \<open>float\<close> is a rational number. In \<open>convert_to_scale\<close> and in the bot the
  arithmetic of the source is read with exact \<open>+\<close>, \<open>-\<close>, \<open>*\<close>, \<open>/\<close> and comparisons,
  and \<open>round\<close> as rounding of the exact value with ties to the even digit (what Python
  does with the exact binary value of a float); binary rounding error is outside that
  reading. \<open>convert_to_scale_f64\<close> is the score normalizer with every operation rounded
  as IEEE-754 binary64 rounds it. Infinities and NaN are outside both.
\<close>

type_synonym pystr = "nat list"

definition py :: "string \<Rightarrow> pystr" where
  "py s = map of_char s"

definition py_round :: "rat \<Rightarrow> nat \<Rightarrow> rat" where
  \<comment> \<open>\<open>round(x, ndigits)\<close>\<close>
  "py_round x ndigits =
     (let m = x * 10 ^ ndigits;
          f = \<lfloor>m\<rfloor>;
          r = m - of_int f
      in of_int (if r < 1 / 2 then f
                 else if r > 1 / 2 then f + 1
                 else if even f then f else f + 1) / 10 ^ ndigits)"

definition dict_get :: "('k \<rightharpoonup> 'v) \<Rightarrow> 'k \<Rightarrow> 'v \<Rightarrow> 'v" where
  \<comment> \<open>\<open>d.get(k, default)\<close>\<close>
  "dict_get d k dflt = (case d k of None \<Rightarrow> dflt | Some v \<Rightarrow> v)"

section \<open>sentiment_analyzer.py: text preprocessing\<close>

text \<open>
  Whitespace as Python's \<open>str.isspace\<close>, which both \<open>str.strip()\<close> and the regular
  expression classes \<open>\s\<close> and \<open>\S\<close> use on \<open>str\<close> patterns: the ASCII characters
  9 to 13 and 28 to 32 and the Unicode white space beyond ASCII.
\<close>

definition is_space :: "nat \<Rightarrow> bool" where
  "is_space c =
     ((9 \<le> c \<and> c \<le> 13) \<or> (28 \<le> c \<and> c \<le> 32) \<or> c = 133 \<or> c = 160 \<or> c = 5760 \<or>
      (8192 \<le> c \<and> c \<le> 8202) \<or> c = 8232 \<or> c = 8233 \<or> c = 8239 \<or> c = 8287 \<or>
      c = 12288)"

text \<open>
  The class \<open>\w\<close> on a \<open>str\<close> pattern: alphanumeric or underscore. On ASCII this is
  \<open>[a-zA-Z0-9_]\<close>; beyond ASCII it is Unicode's alphanumeric table, which is not part
  of the repository and is taken as the parameter \<open>isalnum\<close>.
\<close>

definition is_word :: "(nat \<Rightarrow> bool) \<Rightarrow> nat \<Rightarrow> bool" where
  "is_word isalnum c =
     (if c < 128
      then (48 \<le> c \<and> c \<le> 57) \<or> (65 \<le> c \<and> c \<le> 90) \<or> (97 \<le> c \<and> c \<le> 122) \<or> c = 95
      else isalnum c)"

text \<open>\<open>str.strip()\<close>: leading and trailing whitespace removed.\<close>

definition strip :: "pystr \<Rightarrow> pystr" where
  "strip s = rev (dropWhile is_space (rev (dropWhile is_space s)))"

text \<open>
  \<open>re.sub(r'@\w+', '@user', text)\<close>: scanning from the left, an \<open>@\<close> (code point 64)
  followed by at least one word character starts a match, which takes the whole run of
  word characters; the scan resumes after the match.
\<close>

function sub_mentions :: "(nat \<Rightarrow> bool) \<Rightarrow> pystr \<Rightarrow> pystr" where
  "sub_mentions isalnum [] = []"
| "sub_mentions isalnum (c # cs) =
     (if c = 64 \<and> cs \<noteq> [] \<and> is_word isalnum (hd cs)
      then py ''@user'' @ sub_mentions isalnum (dropWhile (is_word isalnum) cs)
      else c # sub_mentions isalnum cs)"
  by pat_completeness auto
termination
  by (relation "measure (\<lambda>(isalnum, s). length s)")
     (auto intro: le_imp_less_Suc length_dropWhile_le)

text \<open>
  \<open>re.sub(r'http[s]?://\S+', 'http', text)\<close>. \<open>match_url s\<close> matches the pattern at the
  start of \<open>s\<close> and returns the text after the match: \<open>http\<close>, then the optional
  \<open>s\<close> (tried first with, then without, as the greedy \<open>?\<close> does), then \<open>://\<close>, then
  the longest non-empty run of non-whitespace.
\<close>

definition strip_prefix :: "pystr \<Rightarrow> pystr \<Rightarrow> pystr option" where
  "strip_prefix p s = (if take (length p) s = p then Some (drop (length p) s) else None)"

definition nonspace_run :: "pystr \<Rightarrow> pystr option" where
  "nonspace_run s =
     (case s of [] \<Rightarrow> None
      | c # cs \<Rightarrow> if is_space c then None else Some (dropWhile (\<lambda>c. \<not> is_space c) cs))"

definition url_tail :: "pystr \<Rightarrow> pystr option" where
  "url_tail r = Option.bind (strip_prefix (py ''://'') r) nonspace_run"

definition match_url :: "pystr \<Rightarrow> pystr option" where
  "match_url s =
     (case strip_prefix (py ''http'') s of
        None \<Rightarrow> None
      | Some r \<Rightarrow>
          (case Option.bind (strip_prefix (py ''s'') r) url_tail of
             Some rest \<Rightarrow> Some rest
           | None \<Rightarrow> url_tail r))"

lemma strip_prefix_Some: "strip_prefix p s = Some r \<longleftrightarrow> s = p @ r"
  unfolding strip_prefix_def by (metis append_eq_conv_conj option.distinct(1) option.inject)

lemma strip_prefix_None: "strip_prefix p s = None \<longleftrightarrow> (\<forall>r. s \<noteq> p @ r)"
  using strip_prefix_Some [of p s] by (cases "strip_prefix p s") auto

lemma nonspace_run_Some:
  "nonspace_run s = Some rest \<longleftrightarrow>
     (\<exists>x r. s = x # r \<and> \<not> is_space x \<and> rest = dropWhile (\<lambda>c. \<not> is_space c) r)"
  by (cases s) (auto simp: nonspace_run_def)

lemma url_tail_Some:
  "url_tail s = Some rest \<longleftrightarrow>
     (\<exists>x r. s = 58 # 47 # 47 # x # r \<and> \<not> is_space x \<and>
        rest = dropWhile (\<lambda>c. \<not> is_space c) r)"
  by (auto simp: url_tail_def bind_eq_Some_conv strip_prefix_Some nonspace_run_Some py_def)

lemma s_url_tail_Some:
  "Option.bind (strip_prefix (py ''s'') s) url_tail = Some rest \<longleftrightarrow>
     (\<exists>x r. s = 115 # 58 # 47 # 47 # x # r \<and> \<not> is_space x \<and>
        rest = dropWhile (\<lambda>c. \<not> is_space c) r)"
  by (auto simp: bind_eq_Some_conv strip_prefix_Some url_tail_Some py_def)

lemma match_url_Some:
  "match_url s = Some rest \<longleftrightarrow>
     (\<exists>x r. \<not> is_space x \<and> rest = dropWhile (\<lambda>c. \<not> is_space c) r \<and>
        (s = 104 # 116 # 116 # 112 # 115 # 58 # 47 # 47 # x # r \<or>
         s = 104 # 116 # 116 # 112 # 58 # 47 # 47 # x # r))"
  (is "?L \<longleftrightarrow> ?R")
proof (cases "strip_prefix (py ''http'') s")
  case None
  then have "\<forall>r. s \<noteq> 104 # 116 # 116 # 112 # r"
    by (simp add: strip_prefix_None py_def)
  then have "\<not> ?R" by blast
  moreover have "\<not> ?L" using None by (simp add: match_url_def)
  ultimately show ?thesis by blast
next
  case (Some r0)
  then have s: "s = 104 # 116 # 116 # 112 # r0" by (simp add: strip_prefix_Some py_def)
  have R: "?R \<longleftrightarrow>
    (\<exists>x r. \<not> is_space x \<and> rest = dropWhile (\<lambda>c. \<not> is_space c) r \<and>
        (r0 = 115 # 58 # 47 # 47 # x # r \<or> r0 = 58 # 47 # 47 # x # r))"
    unfolding s by simp
  show ?thesis
  proof (cases "Option.bind (strip_prefix (py ''s'') r0) url_tail")
    case None
    then have m: "match_url s = url_tail r0"
      using Some by (simp add: match_url_def)
    have no: "r0 \<noteq> 115 # 58 # 47 # 47 # x # r" if "\<not> is_space x" for x r
    proof
      assume "r0 = 115 # 58 # 47 # 47 # x # r"
      then have "Option.bind (strip_prefix (py ''s'') r0) url_tail
          = Some (dropWhile (\<lambda>c. \<not> is_space c) r)"
        unfolding s_url_tail_Some using that by blast
      with None show False by simp
    qed
    show ?thesis unfolding R m url_tail_Some using no by blast
  next
    case (Some a)
    then have m: "match_url s = Some a"
      using \<open>strip_prefix (py ''http'') s = Some r0\<close> by (simp add: match_url_def)
    from Some obtain x r' where
      a: "\<not> is_space x" "a = dropWhile (\<lambda>c. \<not> is_space c) r'" "r0 = 115 # 58 # 47 # 47 # x # r'"
      unfolding s_url_tail_Some by blast
    have "?R \<longleftrightarrow> rest = a"
      unfolding R a(3) using a(1,2) by auto
    then show ?thesis unfolding m by auto
  qed
qed

lemma match_url_shorter: "match_url s = Some rest \<Longrightarrow> length rest < length s"
proof -
  have le: "length (dropWhile P r) \<le> length r" for P and r :: pystr
    by (rule length_dropWhile_le)
  assume "match_url s = Some rest"
  then obtain x r where rest: "rest = dropWhile (\<lambda>c. \<not> is_space c) r"
    and s: "s = 104 # 116 # 116 # 112 # 115 # 58 # 47 # 47 # x # r \<or>
         s = 104 # 116 # 116 # 112 # 58 # 47 # 47 # x # r"
    unfolding match_url_Some by blast
  from s have "length r < length s" by auto
  with le [of "\<lambda>c. \<not> is_space c" r] show ?thesis unfolding rest by linarith
qed

function sub_urls :: "pystr \<Rightarrow> pystr" where
  "sub_urls [] = []"
| "sub_urls (c # cs) =
     (case match_url (c # cs) of
        Some rest \<Rightarrow> py ''http'' @ sub_urls rest
      | None \<Rightarrow> c # sub_urls cs)"
  by pat_completeness auto
termination
  by (relation "measure length") (auto dest: match_url_shorter)

text \<open>\<open>re.sub(r'\s+', ' ', text)\<close>: every run of whitespace becomes one space (32).\<close>

function collapse_ws :: "pystr \<Rightarrow> pystr" where
  "collapse_ws [] = []"
| "collapse_ws (c # cs) =
     (if is_space c then 32 # collapse_ws (dropWhile is_space cs)
      else c # collapse_ws cs)"
  by pat_completeness auto
termination
  by (relation "measure length") (auto intro: le_imp_less_Suc length_dropWhile_le)

text \<open>\<open>RussianSentimentAnalyzer.preprocess_text\<close>.\<close>

definition preprocess_text :: "(nat \<Rightarrow> bool) \<Rightarrow> pystr \<Rightarrow> pystr" where
  "preprocess_text isalnum text0 =
     (let text1 = sub_mentions isalnum text0;
          text2 = sub_urls text1;
          text3 = collapse_ws text2
      in strip text3)"

section \<open>sentiment_analyzer.py: the score normalizer and the outlier detector\<close>

text \<open>
  \<open>RussianSentimentAnalyzer._convert_to_scale\<close>. The draw
  \<open>np.random.uniform(-0.05, 0.05)\<close> is the parameter \<open>variation\<close>.
\<close>

definition convert_to_scale :: "(pystr \<rightharpoonup> rat) \<Rightarrow> rat \<Rightarrow> rat" where
  "convert_to_scale probabilities variation =
     (let negative_prob = dict_get probabilities (py ''LABEL_0'') 0.0;
          neutral_prob = dict_get probabilities (py ''LABEL_1'') 0.0;
          positive_prob = dict_get probabilities (py ''LABEL_2'') 0.0;
          polarity = positive_prob - negative_prob;
          confidence = max negative_prob (max neutral_prob positive_prob);
          base_score =
            (if polarity < - 0.1 then
               (if confidence > 0.9 then 1.0 + (polarity + 1) * 1.5
                else if confidence > 0.7 then 1.5 + (polarity + 1) * 1.5
                else 2.5 + (polarity + 1) * 1.0)
             else if polarity > 0.1 then
               (if confidence > 0.9 then 8.5 + polarity * 1.5
                else if confidence > 0.7 then 7.0 + polarity * 1.5
                else 6.5 + polarity * 0.5)
             else
               (let base_score = 5.0 + polarity * 0.8
                in if confidence > 0.8 then 5.0
                   else base_score + (0.5 - confidence) * 0.6));
          sentiment_score = max 1.0 (min 10.0 base_score);
          sentiment_score = max 1.0 (min 10.0 (sentiment_score + variation))
      in py_round sentiment_score 1)"

text \<open>\<open>RussianSentimentAnalyzer.is_outlier\<close>.\<close>

definition is_outlier :: "rat \<Rightarrow> rat \<Rightarrow> rat \<Rightarrow> bool" where
  "is_outlier sentiment_score low_threshold high_threshold =
     (sentiment_score \<le> low_threshold \<or> sentiment_score \<ge> high_threshold)"

text \<open>
  The dictionary \<open>analyze_sentiment\<close> builds from the three class probabilities
  (\<open>prob_dict\<close> in the source).
\<close>

definition prob_dict :: "rat \<Rightarrow> rat \<Rightarrow> rat \<Rightarrow> (pystr \<rightharpoonup> rat)" where
  "prob_dict p_n p_z p_p =
     [py ''LABEL_0'' \<mapsto> p_n, py ''LABEL_1'' \<mapsto> p_z, py ''LABEL_2'' \<mapsto> p_p]"

subsection \<open>Sentiment analysis of one text\<close>

text \<open>
  The labels \<open>"NEGATIVE"\<close>, \<open>"NEUTRAL"\<close>, \<open>"POSITIVE"\<close> and the exceptions the model
  distinguishes. \<open>ModelError\<close> stands for any exception raised by the tokenizer, the
  model or the softmax.
\<close>

datatype label = NEGATIVE | NEUTRAL | POSITIVE

datatype py_error =
  KeyError | TypeError | AttributeError | JSONDecodeError | ModelError

text \<open>
  The classifier (tokenizer, model and softmax of \<open>analyze_sentiment\<close>) is external: it
  is the parameter \<open>predict\<close>, which returns the three class probabilities or raises.
\<close>

type_synonym classifier = "pystr \<Rightarrow> py_error + rat \<times> rat \<times> rat"

text \<open>
  \<open>RussianSentimentAnalyzer.analyze_sentiment\<close>. Besides the pair the source returns,
  the model returns the list of texts the classifier was invoked on, so that the number
  of invocations can be stated.
\<close>

definition analyze_sentiment ::
  "(nat \<Rightarrow> bool) \<Rightarrow> classifier \<Rightarrow> rat \<Rightarrow> pystr \<Rightarrow> (rat \<times> label) \<times> pystr list" where
  "analyze_sentiment isalnum predict variation text0 =
     (if text0 = [] \<or> strip text0 = [] then ((5.0, NEUTRAL), [])
      else
        let processed_text = preprocess_text isalnum text0
        in case predict processed_text of
             Inl e \<Rightarrow> ((5.0, NEUTRAL), [processed_text])
           | Inr (p0, p1, p2) \<Rightarrow>
               let sentiment_score = convert_to_scale (prob_dict p0 p1 p2) variation;
                   sentiment_label =
                     (if sentiment_score \<le> 3.5 then NEGATIVE
                      else if sentiment_score \<ge> 6.5 then POSITIVE
                      else NEUTRAL)
               in ((sentiment_score, sentiment_label), [processed_text]))"

subsection \<open>The normalizer as the specification words it\<close>

text \<open>
  These three definitions follow the specification's text (section 4.2, steps 1 to 5),
  not the source; they exist to be compared with \<open>convert_to_scale\<close>.
\<close>

definition spec_polarity :: "rat \<Rightarrow> rat \<Rightarrow> rat \<Rightarrow> rat" where
  "spec_polarity p_n p_z p_p = p_p - p_n"

definition spec_confidence :: "rat \<Rightarrow> rat \<Rightarrow> rat \<Rightarrow> rat" where
  "spec_confidence p_n p_z p_p = Max {p_n, p_z, p_p}"

definition spec_base :: "rat \<Rightarrow> rat \<Rightarrow> rat" where
  "spec_base polarity confidence =
     (if polarity < - 0.1 then
        (if confidence > 0.9 then 1.0 + (polarity + 1) * 1.5
         else if confidence > 0.7 then 1.5 + (polarity + 1) * 1.5
         else 2.5 + (polarity + 1) * 1.0)
      else if polarity > 0.1 then
        (if confidence > 0.9 then 8.5 + polarity * 1.5
         else if confidence > 0.7 then 7.0 + polarity * 1.5
         else 6.5 + polarity * 0.5)
      else if confidence > 0.8 then 5.0
      else 5.0 + polarity * 0.8 + (0.5 - confidence) * 0.6)"

definition spec_clamp :: "rat \<Rightarrow> rat" where
  "spec_clamp x = (if x < 1.0 then 1.0 else if x > 10.0 then 10.0 else x)"

section \<open>sentiment_analyzer.py: the score normalizer in double precision\<close>

text \<open>
  A finite binary64 number is a rational \<open>n * 2 ^ k\<close> with \<open>\<bar>n\<bar> < 2 ^ 53\<close> and
  \<open>- 1074 \<le> k\<close>. \<open>f64 x\<close> is the binary64 number nearest to the rational \<open>x\<close>, ties
  to the even significand: \<open>expo x\<close> is the exponent of the binade of \<open>x\<close>
  (\<open>2 ^ expo x \<le> x < 2 ^ (expo x + 1)\<close> for positive \<open>x\<close>), the spacing of binary64
  numbers there is \<open>2 ^ (expo x - 52)\<close>, and below \<open>2 ^ (- 1022)\<close> (subnormal
  numbers) it is \<open>2 ^ (- 1074)\<close>. A literal of the source denotes \<open>f64\<close> of its decimal
  value, and \<open>+\<close>, \<open>-\<close> and \<open>*\<close> on floats are the exact operation followed by \<open>f64\<close>
  (IEEE-754 round to nearest, the only rounding mode Python uses); comparisons, \<open>max\<close>
  and \<open>min\<close> are exact. Overflow to infinity is not modelled: it needs a magnitude of
  \<open>2 ^ 1024\<close>, which no operation of the normalizer reaches from probabilities.
\<close>

definition round_half_even :: "rat \<Rightarrow> int" where
  "round_half_even q =
     (let f = \<lfloor>q\<rfloor>; r = q - of_int f
      in if r < 1 / 2 then f else if r > 1 / 2 then f + 1 else if even f then f else f + 1)"

text \<open>The exponent of the binade of a positive rational.\<close>

function expo :: "rat \<Rightarrow> int" where
  "expo x =
     (if x \<le> 0 then 0
      else if 2 \<le> x then expo (x / 2) + 1
      else if x < 1 then expo (x * 2) - 1
      else 0)"
  by pat_completeness auto
termination
proof (relation "measure (\<lambda>x. if 1 \<le> x then nat \<lfloor>x\<rfloor> else nat \<lceil>1 / x\<rceil> + 1)")
  show "wf (measure (\<lambda>x::rat. if 1 \<le> x then nat \<lfloor>x\<rfloor> else nat \<lceil>1 / x\<rceil> + 1))" by simp
next
  fix x :: rat
  assume "\<not> x \<le> 0" and x2: "2 \<le> x"
  have a: "x / 2 \<le> x - 1" and b: "1 \<le> x / 2" and c: "1 \<le> x" using x2 by simp_all
  have "\<lfloor>x / 2\<rfloor> \<le> \<lfloor>x - 1\<rfloor>" using a by (rule floor_mono)
  moreover have "\<lfloor>x - 1\<rfloor> = \<lfloor>x\<rfloor> - 1" by (rule floor_diff_one)
  moreover have "1 \<le> \<lfloor>x / 2\<rfloor>" using b by (simp only: le_floor_iff of_int_1)
  ultimately have "nat \<lfloor>x / 2\<rfloor> < nat \<lfloor>x\<rfloor>" by linarith
  then show "(x / 2, x) \<in> measure (\<lambda>x. if 1 \<le> x then nat \<lfloor>x\<rfloor> else nat \<lceil>1 / x\<rceil> + 1)"
    using b c by simp
next
  fix x :: rat
  assume x: "\<not> x \<le> 0" "\<not> 2 \<le> x" "x < 1"
  then have y: "1 < 1 / x" by simp
  then have c: "2 \<le> \<lceil>1 / x\<rceil>" by (simp add: le_ceiling_iff)
  show "(x * 2, x) \<in> measure (\<lambda>x. if 1 \<le> x then nat \<lfloor>x\<rfloor> else nat \<lceil>1 / x\<rceil> + 1)"
  proof (cases "1 \<le> x * 2")
    case True
    have "x * 2 < 2" using x by simp
    then have "\<lfloor>x * 2\<rfloor> \<le> 1" by (simp add: floor_le_iff)
    with c have "nat \<lfloor>x * 2\<rfloor> < nat \<lceil>1 / x\<rceil> + 1" by linarith
    then show ?thesis using True x(3) by simp
  next
    case False
    then have "2 < 1 / x" using x by (simp add: field_simps)
    then have "1 / (x * 2) \<le> 1 / x - 1" using x by (simp add: field_simps)
    then have "\<lceil>1 / (x * 2)\<rceil> \<le> \<lceil>1 / x - 1\<rceil>" by (rule ceiling_mono)
    moreover have "\<lceil>1 / x - 1\<rceil> = \<lceil>1 / x\<rceil> - 1" by (rule ceiling_diff_one)
    ultimately have "\<lceil>1 / (x * 2)\<rceil> < \<lceil>1 / x\<rceil>" by linarith
    with c have "nat \<lceil>1 / (x * 2)\<rceil> + 1 < nat \<lceil>1 / x\<rceil> + 1" by linarith
    then show ?thesis using False x(3) by simp
  qed
qed

declare expo.simps [simp del]

definition f64 :: "rat \<Rightarrow> rat" where
  "f64 x =
     (let k = max (expo \<bar>x\<bar>) (- 1022) - 52;
          u = 2 powi k
      in of_int (round_half_even (x / u)) * u)"

definition fadd :: "rat \<Rightarrow> rat \<Rightarrow> rat" where
  "fadd a b = f64 (a + b)"

definition fsub :: "rat \<Rightarrow> rat \<Rightarrow> rat" where
  "fsub a b = f64 (a - b)"

definition fmul :: "rat \<Rightarrow> rat \<Rightarrow> rat" where
  "fmul a b = f64 (a * b)"


text \<open>
  \<open>RussianSentimentAnalyzer._convert_to_scale\<close> on binary64 numbers. The integer \<open>1\<close> of
  \<open>polarity + 1\<close> is converted to the float \<open>1.0\<close>; \<open>round(x, 1)\<close> on a float rounds the
  exact value of \<open>x\<close> to one decimal, ties to even, and returns the binary64 number
  nearest to that decimal.
\<close>

definition convert_to_scale_f64 :: "(pystr \<rightharpoonup> rat) \<Rightarrow> rat \<Rightarrow> rat" where
  "convert_to_scale_f64 probabilities variation =
     (let negative_prob = dict_get probabilities (py ''LABEL_0'') (f64 0.0);
          neutral_prob = dict_get probabilities (py ''LABEL_1'') (f64 0.0);
          positive_prob = dict_get probabilities (py ''LABEL_2'') (f64 0.0);
          polarity = fsub positive_prob negative_prob;
          confidence = max negative_prob (max neutral_prob positive_prob);
          base_score =
            (if polarity < - f64 0.1 then
               (if confidence > f64 0.9
                then fadd (f64 1.0) (fmul (fadd polarity (f64 1)) (f64 1.5))
                else if confidence > f64 0.7
                then fadd (f64 1.5) (fmul (fadd polarity (f64 1)) (f64 1.5))
                else fadd (f64 2.5) (fmul (fadd polarity (f64 1)) (f64 1.0)))
             else if polarity > f64 0.1 then
               (if confidence > f64 0.9 then fadd (f64 8.5) (fmul polarity (f64 1.5))
                else if confidence > f64 0.7 then fadd (f64 7.0) (fmul polarity (f64 1.5))
                else fadd (f64 6.5) (fmul polarity (f64 0.5)))
             else
               (let base_score = fadd (f64 5.0) (fmul polarity (f64 0.8))
                in if confidence > f64 0.8 then f64 5.0
                   else fadd base_score (fmul (fsub (f64 0.5) confidence) (f64 0.6))));
          sentiment_score = max (f64 1.0) (min (f64 10.0) base_score);
          sentiment_score = max (f64 1.0) (min (f64 10.0) (fadd sentiment_score variation))
      in f64 (py_round sentiment_score 1))"

text \<open>
  The normalizer as the specification words it (section 4.2, steps 1 to 5), its
  formulas evaluated in binary64 arithmetic; confidence and the clamp involve no
  rounding, so \<open>spec_confidence\<close> and \<open>spec_clamp\<close> serve again.
\<close>

definition spec_polarity_f64 :: "rat \<Rightarrow> rat \<Rightarrow> rat \<Rightarrow> rat" where
  "spec_polarity_f64 p_n p_z p_p = fsub p_p p_n"

definition spec_base_f64 :: "rat \<Rightarrow> rat \<Rightarrow> rat" where
  "spec_base_f64 polarity confidence =
     (if polarity < - f64 0.1 then
        (if confidence > f64 0.9
         then fadd (f64 1.0) (fmul (fadd polarity (f64 1)) (f64 1.5))
         else if confidence > f64 0.7
         then fadd (f64 1.5) (fmul (fadd polarity (f64 1)) (f64 1.5))
         else fadd (f64 2.5) (fmul (fadd polarity (f64 1)) (f64 1.0)))
      else if polarity > f64 0.1 then
        (if confidence > f64 0.9 then fadd (f64 8.5) (fmul polarity (f64 1.5))
         else if confidence > f64 0.7 then fadd (f64 7.0) (fmul polarity (f64 1.5))
         else fadd (f64 6.5) (fmul polarity (f64 0.5)))
      else if confidence > f64 0.8 then f64 5.0
      else fadd (fadd (f64 5.0) (fmul polarity (f64 0.8)))
                (fmul (fsub (f64 0.5) confidence) (f64 0.6)))"

definition spec_round1_f64 :: "rat \<Rightarrow> rat" where
  "spec_round1_f64 x = f64 (py_round x 1)"

section \<open>telegram_bot.py: the session aggregator\<close>

text \<open>
  Python values as \<open>json\<close> reads and writes them; a \<open>dict\<close> keeps its keys in
  insertion order.
\<close>

datatype pyval =
  PNone | PBool bool | PInt int | PFloat rat | PStr pystr
  | PList "pyval list" | PDict "(pystr \<times> pyval) list"

text \<open>
  A store file is modelled by what \<open>json.loads\<close> makes of its text: \<open>Blank\<close> is empty or
  whitespace-only text, \<open>Garbage\<close> is other text that is not JSON, and \<open>Doc v\<close> is text
  that parses to \<open>v\<close>. Writing \<open>json.dumps(v)\<close> leaves \<open>Doc v\<close>: the model takes
  \<open>json.loads (json.dumps v) = v\<close> for granted. Opening and writing a file always
  succeed in this model (no I/O error, the log directory exists).
\<close>

datatype fcontent = Blank | Garbage | Doc pyval

text \<open>
  \<open>config.py\<close>: the options the bot reads.
\<close>

record config =
  MONITOR_CHAT_ID :: int
  LOG_DIRECTORY :: pystr
  SENTIMENT_THRESHOLD_LOW :: rat
  SENTIMENT_THRESHOLD_HIGH :: rat

text \<open>
  What a handler reads from its surroundings: \<open>datetime.now()\<close> formatted as
  \<open>%Y-%m-%d\<close>, as \<open>%Y-%m\<close> and as ISO-8601, and the draw of the random jitter.
\<close>

record ambient =
  now_day :: pystr
  now_month :: pystr
  now_iso :: pystr
  jitter :: rat

text \<open>
  The fields of a Telegram message the handler reads; \<open>date_iso\<close> is
  \<open>message.date.isoformat()\<close>.
\<close>

record user =
  user_id :: int
  username :: "pystr option"

record message =
  message_id :: int
  chat_id :: int
  from_user :: "user option"
  msg_text :: "pystr option"
  date_iso :: pystr

text \<open>
  The state of \<open>SentimentBot\<close>, together with the files under the log directory and a
  log of every file write (path and document written), oldest first.
\<close>

record bot =
  session_messages :: "pyval list"
  session_outliers :: nat
  files :: "pystr \<rightharpoonup> fcontent"
  writes :: "(pystr \<times> pyval) list"

definition write_file :: "pystr \<Rightarrow> pyval \<Rightarrow> bot \<Rightarrow> bot" where
  "write_file path doc self =
     self\<lparr>files := (files self)(path \<mapsto> Doc doc), writes := writes self @ [(path, doc)]\<rparr>"

text \<open>\<open>os.path.join\<close> of two components (POSIX).\<close>

definition path_join :: "pystr \<Rightarrow> pystr \<Rightarrow> pystr" where
  "path_join a b =
     (if b \<noteq> [] \<and> hd b = 47 then b
      else if a = [] \<or> last a = 47 then a @ b
      else a @ [47] @ b)"

text \<open>
  \<open>SentimentBot._save_to_json\<close>. \<open>json.JSONDecodeError\<close> is caught and gives the empty
  list; \<open>append\<close> on a document that is not a list raises \<open>AttributeError\<close>, which the
  outer handler catches, leaving the state unchanged.
\<close>

definition save_to_json :: "config \<Rightarrow> pyval \<Rightarrow> pystr \<Rightarrow> bot \<Rightarrow> bot" where
  "save_to_json cfg data filename self =
     (let filepath = path_join (LOG_DIRECTORY cfg) filename;
          existing_data =
            (case files self filepath of
               None \<Rightarrow> PList []
             | Some Blank \<Rightarrow> PList []
             | Some Garbage \<Rightarrow> PList []
             | Some (Doc v) \<Rightarrow> v)
      in case existing_data of
           PList xs \<Rightarrow> write_file filepath (PList (xs @ [data])) self
         | _ \<Rightarrow> self)"

text \<open>
  \<open>SentimentBot.save_current_data\<close>. \<open>load_existing\<close> is the read of lines 178 to 183:
  \<open>json.loads\<close> is called on non-blank content and its \<open>JSONDecodeError\<close> is not caught
  there; \<open>list_concat\<close> is \<open>existing_data + self.session_messages\<close>. Any exception
  reaches the outer handler, which logs it and leaves the state unchanged.
\<close>

definition data_file :: "config \<Rightarrow> pystr \<Rightarrow> pystr" where
  "data_file cfg day = LOG_DIRECTORY cfg @ py ''/sentiment_data_'' @ day @ py ''.json''"

definition load_existing :: "fcontent option \<Rightarrow> py_error + pyval" where
  "load_existing f =
     (case f of
        None \<Rightarrow> Inr (PList [])
      | Some Blank \<Rightarrow> Inr (PList [])
      | Some Garbage \<Rightarrow> Inl JSONDecodeError
      | Some (Doc v) \<Rightarrow> Inr v)"

definition list_concat :: "pyval \<Rightarrow> pyval list \<Rightarrow> py_error + pyval list" where
  "list_concat existing_data ys =
     (case existing_data of PList xs \<Rightarrow> Inr (xs @ ys) | _ \<Rightarrow> Inl TypeError)"

definition save_current_data :: "config \<Rightarrow> pystr \<Rightarrow> bot \<Rightarrow> bot" where
  "save_current_data cfg day self =
     (if session_messages self = [] then self
      else
        case load_existing (files self (data_file cfg day)) of
          Inl e \<Rightarrow> self
        | Inr existing_data \<Rightarrow>
            (case list_concat existing_data (session_messages self) of
               Inl e \<Rightarrow> self
             | Inr all_data \<Rightarrow>
                 (write_file (data_file cfg day) (PList all_data) self)
                   \<lparr>session_messages := []\<rparr>))"

text \<open>
  \<open>SentimentBot.handle_message\<close>; \<open>message_data\<close> is the dictionary of lines 122 to 131.
\<close>

definition label_str :: "label \<Rightarrow> pystr" where
  "label_str l = (case l of NEGATIVE \<Rightarrow> py ''NEGATIVE'' | NEUTRAL \<Rightarrow> py ''NEUTRAL''
                  | POSITIVE \<Rightarrow> py ''POSITIVE'')"

definition message_data :: "message \<Rightarrow> pystr \<Rightarrow> rat \<Rightarrow> label \<Rightarrow> pyval" where
  "message_data message txt sentiment_score sentiment_label =
     PDict
      [(py ''message_id'', PInt (message_id message)),
       (py ''chat_id'', PInt (chat_id message)),
       (py ''user_id'',
          case from_user message of None \<Rightarrow> PNone | Some u \<Rightarrow> PInt (user_id u)),
       (py ''username'',
          case from_user message of None \<Rightarrow> PNone
          | Some u \<Rightarrow> (case username u of None \<Rightarrow> PNone | Some n \<Rightarrow> PStr n)),
       (py ''text'', PStr txt),
       (py ''timestamp'', PStr (date_iso message)),
       (py ''sentiment_score'', PFloat sentiment_score),
       (py ''sentiment_label'', PStr (label_str sentiment_label))]"

definition handle_message ::
  "config \<Rightarrow> (nat \<Rightarrow> bool) \<Rightarrow> classifier \<Rightarrow> ambient \<Rightarrow> message option \<Rightarrow> bot \<Rightarrow> bot" where
  "handle_message cfg isalnum predict amb update_message self =
     (case update_message of
        None \<Rightarrow> self
      | Some message \<Rightarrow>
          (case msg_text message of
             None \<Rightarrow> self
           | Some txt \<Rightarrow>
               if txt = [] then self
               else if MONITOR_CHAT_ID cfg \<noteq> 0 \<and> chat_id message \<noteq> MONITOR_CHAT_ID cfg
               then self
               else
                 (case fst (analyze_sentiment isalnum predict (jitter amb) txt) of
                    (sentiment_score, sentiment_label) \<Rightarrow>
                      let data = message_data message txt sentiment_score sentiment_label;
                          self1 = self\<lparr>session_messages := session_messages self @ [data]\<rparr>;
                          self2 =
                            (if is_outlier sentiment_score (SENTIMENT_THRESHOLD_LOW cfg)
                                  (SENTIMENT_THRESHOLD_HIGH cfg)
                             then save_to_json cfg data
                                    (py ''outliers_'' @ now_month amb @ py ''.json'')
                                    (self1\<lparr>session_outliers := session_outliers self1 + 1\<rparr>)
                             else self1)
                      in if length (session_messages self2) mod 10 = 0
                         then save_current_data cfg (now_day amb) self2
                         else self2)))"

text \<open>
  \<open>SentimentBot.generate_daily_report\<close>. \<open>daily_report_body\<close> is the body of the
  \<open>try\<close>: it returns the exception raised, \<open>None\<close> when there is no message of today,
  or the report to save. \<open>getitem\<close> is \<open>msg[key]\<close>, \<open>truthy\<close> is Python's truth value,
  \<open>num_of\<close> is the number \<open>sum\<close> adds, \<open>filter_err\<close> and \<open>map_err\<close> are list
  comprehensions that stop at the first exception, \<open>py_max\<close> and \<open>py_min\<close> are
  \<open>max\<close> and \<open>min\<close> (the first extremal element).
\<close>

definition getitem :: "pyval \<Rightarrow> pystr \<Rightarrow> py_error + pyval" where
  "getitem d k =
     (case d of
        PDict kvs \<Rightarrow> (case map_of kvs k of None \<Rightarrow> Inl KeyError | Some v \<Rightarrow> Inr v)
      | _ \<Rightarrow> Inl TypeError)"

definition startswith :: "pyval \<Rightarrow> pystr \<Rightarrow> py_error + bool" where
  "startswith v p =
     (case v of PStr s \<Rightarrow> Inr (take (length p) s = p) | _ \<Rightarrow> Inl AttributeError)"

definition truthy :: "pyval \<Rightarrow> bool" where
  "truthy v =
     (case v of PNone \<Rightarrow> False | PBool b \<Rightarrow> b | PInt i \<Rightarrow> i \<noteq> 0 | PFloat r \<Rightarrow> r \<noteq> 0
      | PStr s \<Rightarrow> s \<noteq> [] | PList xs \<Rightarrow> xs \<noteq> [] | PDict kvs \<Rightarrow> kvs \<noteq> [])"

definition num_of :: "pyval \<Rightarrow> py_error + rat" where
  "num_of v =
     (case v of PInt i \<Rightarrow> Inr (of_int i) | PFloat r \<Rightarrow> Inr r
      | PBool b \<Rightarrow> Inr (if b then 1 else 0) | _ \<Rightarrow> Inl TypeError)"

fun filter_err :: "('a \<Rightarrow> py_error + bool) \<Rightarrow> 'a list \<Rightarrow> py_error + 'a list" where
  "filter_err p [] = Inr []"
| "filter_err p (x # xs) =
     (case p x of
        Inl e \<Rightarrow> Inl e
      | Inr b \<Rightarrow> (case filter_err p xs of
                    Inl e \<Rightarrow> Inl e
                  | Inr ys \<Rightarrow> Inr (if b then x # ys else ys)))"

fun map_err :: "('a \<Rightarrow> py_error + 'b) \<Rightarrow> 'a list \<Rightarrow> py_error + 'b list" where
  "map_err f [] = Inr []"
| "map_err f (x # xs) =
     (case f x of
        Inl e \<Rightarrow> Inl e
      | Inr y \<Rightarrow> (case map_err f xs of Inl e \<Rightarrow> Inl e | Inr ys \<Rightarrow> Inr (y # ys)))"

fun py_max :: "pyval \<times> rat \<Rightarrow> (pyval \<times> rat) list \<Rightarrow> pyval" where
  "py_max (v, r) [] = v"
| "py_max (v, r) ((w, q) # xs) = (if q > r then py_max (w, q) xs else py_max (v, r) xs)"

fun py_min :: "pyval \<times> rat \<Rightarrow> (pyval \<times> rat) list \<Rightarrow> pyval" where
  "py_min (v, r) [] = v"
| "py_min (v, r) ((w, q) # xs) = (if q < r then py_min (w, q) xs else py_min (v, r) xs)"

definition daily_report_body :: "pystr \<Rightarrow> pystr \<Rightarrow> pyval list \<Rightarrow> py_error + pyval option" where
  "daily_report_body day generated_at msgs =
     (case filter_err (\<lambda>msg. case getitem msg (py ''timestamp'') of
                                Inl e \<Rightarrow> Inl e | Inr ts \<Rightarrow> startswith ts day) msgs of
        Inl e \<Rightarrow> Inl e
      | Inr today_messages \<Rightarrow>
          if today_messages = [] then Inr None
          else
            (case map_err (\<lambda>msg. getitem msg (py ''sentiment_score'')) today_messages of
               Inl e \<Rightarrow> Inl e
             | Inr scores \<Rightarrow>
                 (case map_err (\<lambda>s. case num_of s of Inl e \<Rightarrow> Inl e | Inr r \<Rightarrow> Inr (s, r)) scores of
                    Inl e \<Rightarrow> Inl e
                  | Inr nums \<Rightarrow>
                      let avg_sentiment = sum_list (map snd nums) / of_nat (length nums)
                      in case filter_err (\<lambda>msg. case getitem msg (py ''is_outlier'') of
                                                 Inl e \<Rightarrow> Inl e | Inr v \<Rightarrow> Inr (truthy v))
                                today_messages of
                           Inl e \<Rightarrow> Inl e
                         | Inr outliers \<Rightarrow>
                             Inr (Some (PDict
                               [(py ''date'', PStr day),
                                (py ''total_messages'', PInt (int (length today_messages))),
                                (py ''average_sentiment'', PFloat (py_round avg_sentiment 2)),
                                (py ''outliers_count'', PInt (int (length outliers))),
                                (py ''sentiment_distribution'', PDict
                                   [(py ''positive'',
                                       PInt (int (length (filter (\<lambda>(s, r). r \<ge> 6.5) nums)))),
                                    (py ''neutral'',
                                       PInt (int (length (filter (\<lambda>(s, r). 3.5 < r \<and> r < 6.5) nums)))),
                                    (py ''negative'',
                                       PInt (int (length (filter (\<lambda>(s, r). r \<le> 3.5) nums))))]),
                                (py ''top_positive'', py_max (hd nums) (tl nums)),
                                (py ''top_negative'', py_min (hd nums) (tl nums)),
                                (py ''generated_at'', PStr generated_at)])))))"

definition generate_daily_report :: "config \<Rightarrow> ambient \<Rightarrow> bot \<Rightarrow> bot" where
  "generate_daily_report cfg amb self =
     (case daily_report_body (now_day amb) (now_iso amb) (session_messages self) of
        Inl e \<Rightarrow> self
      | Inr None \<Rightarrow> self
      | Inr (Some report) \<Rightarrow>
          save_to_json cfg report (py ''daily_report_'' @ now_day amb @ py ''.json'') self)"

text \<open>
  The paths of the per-day store under the log directory, and the writes of a write log
  that went to such a path.
\<close>

definition is_day_path :: "config \<Rightarrow> pystr \<Rightarrow> bool" where
  "is_day_path cfg p =
     (let pre = LOG_DIRECTORY cfg @ py ''/sentiment_data_''; suf = py ''.json''
      in length pre + length suf \<le> length p \<and> take (length pre) p = pre \<and>
         drop (length p - length suf) p = suf)"

definition day_writes :: "config \<Rightarrow> (pystr \<times> pyval) list \<Rightarrow> (pystr \<times> pyval) list" where
  "day_writes cfg ws = filter (\<lambda>w. is_day_path cfg (fst w)) ws"

subsection \<open>Delivering messages\<close>

text \<open>
  \<open>default_config\<close> holds the defaults of \<open>config.py\<close> (the chat identifier has none).
  A message is \<open>accepted\<close> when \<open>handle_message\<close> does not ignore it; \<open>record_of\<close> is
  the record \<open>handle_message\<close> appends for it; \<open>deliver\<close> hands a sequence of updates to
  \<open>handle_message\<close>, each with its surroundings; \<open>appended\<close> is the state of
  \<open>handle_message\<close> after the record is appended and the outlier side-channel has run;
  \<open>init_bot\<close> is the state \<open>SentimentBot.__init__\<close> leaves.
\<close>

definition default_config :: "int \<Rightarrow> config" where
  "default_config chat =
     \<lparr>MONITOR_CHAT_ID = chat, LOG_DIRECTORY = py ''logs'',
      SENTIMENT_THRESHOLD_LOW = 3.0, SENTIMENT_THRESHOLD_HIGH = 7.5\<rparr>"

definition accepted :: "config \<Rightarrow> message \<Rightarrow> bool" where
  "accepted cfg m =
     (case msg_text m of
        None \<Rightarrow> False
      | Some txt \<Rightarrow> txt \<noteq> [] \<and> (MONITOR_CHAT_ID cfg = 0 \<or> chat_id m = MONITOR_CHAT_ID cfg))"

definition record_of :: "(nat \<Rightarrow> bool) \<Rightarrow> classifier \<Rightarrow> ambient \<times> message \<Rightarrow> pyval" where
  "record_of isalnum predict ev =
     (case msg_text (snd ev) of
        None \<Rightarrow> PNone
      | Some txt \<Rightarrow>
          (case fst (analyze_sentiment isalnum predict (jitter (fst ev)) txt) of
             (sentiment_score, sentiment_label) \<Rightarrow>
               message_data (snd ev) txt sentiment_score sentiment_label))"

definition deliver ::
  "config \<Rightarrow> (nat \<Rightarrow> bool) \<Rightarrow> classifier \<Rightarrow> (ambient \<times> message) list \<Rightarrow> bot \<Rightarrow> bot" where
  "deliver cfg isalnum predict evs self =
     foldl (\<lambda>s ev. handle_message cfg isalnum predict (fst ev) (Some (snd ev)) s) self evs"

definition appended :: "config \<Rightarrow> ambient \<Rightarrow> pyval \<Rightarrow> bool \<Rightarrow> bot \<Rightarrow> bot" where
  "appended cfg amb r out s =
     (if out
      then save_to_json cfg r (py ''outliers_'' @ now_month amb @ py ''.json'')
             (s\<lparr>session_messages := session_messages s @ [r],
                session_outliers := session_outliers s + 1\<rparr>)
      else s\<lparr>session_messages := session_messages s @ [r]\<rparr>)"

definition init_bot :: "(pystr \<rightharpoonup> fcontent) \<Rightarrow> bot" where
  "init_bot fs = \<lparr>session_messages = [], session_outliers = 0, files = fs, writes = []\<rparr>"

text \<open>Concrete surroundings, messages and records used in the examples below.\<close>

definition example_ambient :: ambient where
  "example_ambient =
     \<lparr>now_day = py ''2024-05-01'', now_month = py ''2024-05'',
      now_iso = py ''2024-05-01T23:59:00'', jitter = 0\<rparr>"

definition example_message :: "int \<Rightarrow> message" where
  "example_message i =
     \<lparr>message_id = i, chat_id = 7, from_user = None, msg_text = Some (py ''ok''),
      date_iso = py ''2024-05-01T10:00:00''\<rparr>"

definition example_record :: "int \<Rightarrow> rat \<Rightarrow> label \<Rightarrow> pyval" where
  "example_record i sc lb = message_data (example_message i) (py ''ok'') sc lb"

text \<open>
  An alphanumeric table, a classifier that always answers neutral, nine updates, and a
  bot whose store file of the day holds the JSON object \<open>{}\<close>.
\<close>

definition example_isalnum :: "nat \<Rightarrow> bool" where
  "example_isalnum c = False"

definition example_predict :: classifier where
  "example_predict t = Inr (0, 1, 0)"

definition example_events :: "(ambient \<times> message) list" where
  "example_events = map (\<lambda>i. (example_ambient, example_message (int i))) [0..<9]"

definition example_object_store :: bot where
  "example_object_store =
     init_bot [data_file (default_config 7) (py ''2024-05-01'') \<mapsto> Doc (PDict [])]"

section \<open>Normal forms of preprocessed text\<close>

text \<open>
  Three predicates used in the proofs about \<open>preprocess_text\<close>: every mention in the text
  is already \<open>@user\<close>; no URL pattern matches anywhere in the text; every whitespace
  character is a single space standing alone.
\<close>

fun mention_normal :: "(nat \<Rightarrow> bool) \<Rightarrow> pystr \<Rightarrow> bool" where
  "mention_normal isalnum [] = True"
| "mention_normal isalnum (c # cs) =
     ((c = 64 \<and> cs \<noteq> [] \<and> is_word isalnum (hd cs)
         \<longrightarrow> takeWhile (is_word isalnum) cs = [117, 115, 101, 114]) \<and>
      mention_normal isalnum cs)"

fun url_free :: "pystr \<Rightarrow> bool" where
  "url_free [] = True"
| "url_free (c # cs) = (match_url (c # cs) = None \<and> url_free cs)"

fun ws_normal :: "pystr \<Rightarrow> bool" where
  "ws_normal [] = True"
| "ws_normal (c # cs) =
     ((is_space c \<longrightarrow> c = 32 \<and> (cs \<noteq> [] \<longrightarrow> \<not> is_space (hd cs))) \<and> ws_normal cs)"

section \<open>Properties of the normalizer and the outlier detector\<close>

lemma py_labels_distinct:
  "py ''LABEL_0'' \<noteq> py ''LABEL_1''" "py ''LABEL_0'' \<noteq> py ''LABEL_2''"
  "py ''LABEL_1'' \<noteq> py ''LABEL_2''"
  by (simp_all add: py_def)

lemma prob_dict_get:
  "dict_get (prob_dict p_n p_z p_p) (py ''LABEL_0'') d = p_n"
  "dict_get (prob_dict p_n p_z p_p) (py ''LABEL_1'') d = p_z"
  "dict_get (prob_dict p_n p_z p_p) (py ''LABEL_2'') d = p_p"
  using py_labels_distinct by (simp_all add: dict_get_def prob_dict_def)

lemma clamp_twice: "max 1.0 (min 10.0 (max 1.0 (min 10.0 x) + 0)) = spec_clamp (x::rat)"
  by (simp add: spec_clamp_def max_def min_def)

lemma base_score_eq:
  "(if polarity < - 0.1 then
      (if confidence > 0.9 then 1.0 + (polarity + 1) * 1.5
       else if confidence > 0.7 then 1.5 + (polarity + 1) * 1.5
       else 2.5 + (polarity + 1) * 1.0)
    else if polarity > 0.1 then
      (if confidence > 0.9 then 8.5 + polarity * 1.5
       else if confidence > 0.7 then 7.0 + polarity * 1.5
       else 6.5 + polarity * 0.5)
    else
      (let base_score = 5.0 + polarity * 0.8
       in if confidence > 0.8 then 5.0
          else base_score + (0.5 - confidence) * 0.6)) = spec_base polarity confidence"
  unfolding spec_base_def Let_def by (rule refl)

lemma py_round_1_bounds:
  assumes "1 \<le> x" "x \<le> 10"
  shows "1 \<le> py_round x 1 \<and> py_round x 1 \<le> 10"
proof -
  define m where "m = x * 10"
  define f where "f = \<lfloor>m\<rfloor>"
  define r where "r = m - of_int f"
  have m: "10 \<le> m" "m \<le> 100" using assms by (simp_all add: m_def)
  have f: "10 \<le> f" "f \<le> 100" using m by (simp_all add: f_def le_floor_iff floor_le_iff)
  have r0: "0 \<le> r" by (simp add: r_def f_def)
  have top: "f < 100" if "0 < r"
  proof -
    have "rat_of_int f < m" using that by (simp add: r_def)
    with m(2) have "rat_of_int f < 100" by linarith
    then show ?thesis by linarith
  qed
  define k where "k = (if r < 1 / 2 then f else if r > 1 / 2 then f + 1
                       else if even f then f else f + 1)"
  have k: "10 \<le> k" "k \<le> 100"
  proof -
    show "10 \<le> k" using f(1) by (simp add: k_def)
    show "k \<le> 100"
    proof (cases "r < 1 / 2")
      case True
      then show ?thesis using f(2) by (simp add: k_def)
    next
      case False
      then have "0 < r" by linarith
      then have "f + 1 \<le> 100" using top by linarith
      then show ?thesis using f(2) by (simp add: k_def)
    qed
  qed
  have eq: "py_round x 1 = of_int k / 10"
    by (simp add: py_round_def Let_def k_def r_def f_def m_def)
  have "rat_of_int 10 \<le> of_int k" "of_int k \<le> rat_of_int 100"
    using k by (simp_all only: of_int_le_iff)
  then show ?thesis unfolding eq by simp
qed

lemma py_round_clamp:
  "1.0 \<le> py_round (max 1.0 (min 10.0 y)) 1 \<and> py_round (max 1.0 (min 10.0 y)) 1 \<le> 10.0"
proof -
  have "1 \<le> max 1.0 (min 10.0 y)" "max 1.0 (min 10.0 y) \<le> 10"
    by simp_all
  from py_round_1_bounds [OF this] show ?thesis by simp
qed

lemma convert_to_scale_zero_jitter:
  "convert_to_scale (prob_dict p_n p_z p_p) 0 =
     py_round (spec_clamp (spec_base (spec_polarity p_n p_z p_p)
                                     (spec_confidence p_n p_z p_p))) 1"
proof -
  have conf: "max p_n (max p_z p_p) = spec_confidence p_n p_z p_p"
    by (simp add: spec_confidence_def max.commute max.left_commute)
  have pol: "p_p - p_n = spec_polarity p_n p_z p_p"
    by (simp add: spec_polarity_def)
  show ?thesis
    unfolding convert_to_scale_def Let_def prob_dict_get conf pol
      base_score_eq [unfolded Let_def] clamp_twice
    by (rule refl)
qed

subsection \<open>Rounding to binary64\<close>

lemma powi2_mono: "a \<le> b \<Longrightarrow> (2::rat) powi a \<le> 2 powi b"
proof -
  assume "a \<le> b"
  then have "(1::rat) \<le> 2 powi (b - a)" by simp
  moreover have "(2::rat) powi b = 2 powi a * 2 powi (b - a)"
    using power_int_add [of "2::rat" a "b - a"] by simp
  moreover have "(0::rat) < 2 powi a" by simp
  ultimately have "(2::rat) powi a * 1 \<le> 2 powi a * 2 powi (b - a)"
    by (intro mult_left_mono) simp_all
  then show ?thesis
    using \<open>(2::rat) powi b = 2 powi a * 2 powi (b - a)\<close> by simp
qed

lemma powi2_less_imp: "(2::rat) powi a < 2 powi b \<Longrightarrow> a < b"
  using powi2_mono [of b a] by (cases "a < b") auto

lemma powi2_Suc: "(2::rat) powi (e + 1) = 2 * 2 powi e"
  by (rule power_int_add_1') simp

lemma powi2_pred: "(2::rat) powi (e - 1) = 2 powi e / 2"
  using powi2_Suc [of "e - 1"] by simp

lemma expo_bounds: "0 < x \<Longrightarrow> 2 powi (expo x) \<le> x \<and> x < 2 powi (expo x + 1)"
proof (induction x rule: expo.induct)
  case (1 x)
  show ?case
  proof (cases "2 \<le> x")
    case True
    have e: "expo x = expo (x / 2) + 1" using True "1.prems" by (subst expo.simps) simp
    have "2 powi (expo (x / 2)) \<le> x / 2 \<and> x / 2 < 2 powi (expo (x / 2) + 1)"
      using "1.IH"(1) True "1.prems" by simp
    then show ?thesis unfolding e powi2_Suc by simp
  next
    case False
    show ?thesis
    proof (cases "x < 1")
      case True
      have e: "expo x = expo (x * 2) - 1" using True False "1.prems" by (subst expo.simps) simp
      have "2 powi (expo (x * 2)) \<le> x * 2 \<and> x * 2 < 2 powi (expo (x * 2) + 1)"
        using "1.IH"(2) True False "1.prems" by simp
      then show ?thesis unfolding e powi2_pred by (simp add: powi2_Suc)
    next
      case f: False
      have e: "expo x = 0" using f False "1.prems" by (subst expo.simps) simp
      show ?thesis unfolding e using f False by simp
    qed
  qed
qed

lemma expo_unique:
  assumes "0 < x" "2 powi e \<le> x" "x < 2 powi (e + 1)"
  shows "expo x = e"
proof -
  from expo_bounds [OF assms(1)] have b: "2 powi (expo x) \<le> x" "x < 2 powi (expo x + 1)"
    by simp_all
  have "(2::rat) powi e < 2 powi (expo x + 1)" using assms(2) b(2) by linarith
  then have "e < expo x + 1" by (rule powi2_less_imp)
  moreover have "(2::rat) powi (expo x) < 2 powi (e + 1)" using b(1) assms(3) by linarith
  then have "expo x < e + 1" by (rule powi2_less_imp)
  ultimately show ?thesis by linarith
qed

lemma round_half_even_of_int: "round_half_even (of_int n) = n"
  by (simp add: round_half_even_def)

lemma round_half_even_ge: "of_int n \<le> q \<Longrightarrow> n \<le> round_half_even q"
proof -
  assume "of_int n \<le> q"
  then have "n \<le> \<lfloor>q\<rfloor>" by (simp add: le_floor_iff)
  then show ?thesis by (simp add: round_half_even_def Let_def)
qed

lemma round_half_even_le: "q \<le> of_int n \<Longrightarrow> round_half_even q \<le> n"
proof (cases "q = of_int n")
  case True
  then show ?thesis by (simp add: round_half_even_of_int)
next
  case False
  assume "q \<le> of_int n"
  with False have "q < of_int n" by simp
  then have "\<lfloor>q\<rfloor> < n" by (simp add: floor_less_iff)
  then show ?thesis by (simp add: round_half_even_def Let_def)
qed

lemma round_half_even_abs_ge:
  assumes "of_int N \<le> \<bar>q\<bar>" "0 \<le> N"
  shows "N \<le> \<bar>round_half_even q\<bar>"
proof (cases "0 \<le> q")
  case True
  then have "of_int N \<le> q" using assms(1) by simp
  then have "N \<le> round_half_even q" by (rule round_half_even_ge)
  then show ?thesis by simp
next
  case False
  then have "q \<le> of_int (- N)" using assms(1) by simp
  then have "round_half_even q \<le> - N" by (rule round_half_even_le)
  then show ?thesis by simp
qed

lemma round_half_even_abs_le:
  assumes "\<bar>q\<bar> \<le> of_int N"
  shows "\<bar>round_half_even q\<bar> \<le> N"
proof -
  have "q \<le> of_int N" "of_int (- N) \<le> q" using assms by simp_all
  then have "round_half_even q \<le> N" and "- N \<le> round_half_even q"
    by (simp_all add: round_half_even_le round_half_even_ge)
  then show ?thesis by simp
qed

lemma f64_zero: "f64 0 = 0"
  by (simp add: f64_def round_half_even_def)

lemma f64_fixed:
  assumes "x = of_int m * 2 powi (max (expo \<bar>x\<bar>) (- 1022) - 52)"
  shows "f64 x = x"
proof -
  define u where "u = (2::rat) powi (max (expo \<bar>x\<bar>) (- 1022) - 52)"
  have u: "u \<noteq> 0" by (simp add: u_def)
  have x: "x = of_int m * u" using assms by (simp add: u_def)
  then have "x / u = of_int m" using u by simp
  then have "of_int (round_half_even (x / u)) * u = x"
    using x by (simp add: round_half_even_of_int)
  then show ?thesis by (simp add: f64_def Let_def u_def)
qed

lemma f64_idem: "f64 (f64 x) = f64 x"
proof -
  define e where "e = expo \<bar>x\<bar>"
  define k where "k = max e (- 1022) - 52"
  define u where "u = (2::rat) powi k"
  define n where "n = round_half_even (x / u)"
  define z where "z = of_int n * u"
  have fx: "f64 x = z" by (simp add: f64_def Let_def z_def n_def u_def k_def e_def)
  have u0: "0 < u" by (simp add: u_def)
  have za: "\<bar>z\<bar> = of_int \<bar>n\<bar> * u" using u0 by (simp add: z_def abs_mult)
  have qa: "\<bar>x / u\<bar> = \<bar>x\<bar> / u" using u0 by simp
  have "f64 z = z"
  proof (cases "n = 0")
    case True
    then show ?thesis by (simp add: z_def f64_zero)
  next
    case False
    then have "x \<noteq> 0" by (auto simp: n_def round_half_even_def)
    then have xpos: "0 < \<bar>x\<bar>" by simp
    from expo_bounds [OF xpos] have xb: "2 powi e \<le> \<bar>x\<bar>" "\<bar>x\<bar> < 2 powi (e + 1)"
      by (simp_all add: e_def)
    have zpos: "0 < \<bar>z\<bar>" using False u0 by (simp add: z_def)
    have "\<exists>m. z = of_int m * 2 powi (max (expo \<bar>z\<bar>) (- 1022) - 52)"
    proof (cases "- 1022 \<le> e")
      case True
      then have k: "k = e - 52" by (simp add: k_def)
      have p52: "2 ^ 52 * u = 2 powi e"
        using power_int_add [of "2::rat" 52 k] by (simp add: u_def k)
      have p53: "2 ^ 53 * u = 2 powi (e + 1)"
        using power_int_add [of "2::rat" 53 k] by (simp add: u_def k add.commute)
      have "of_int (2 ^ 52) \<le> \<bar>x / u\<bar>"
        unfolding qa using xb(1) u0 p52 by (simp add: pos_le_divide_eq)
      then have nl: "2 ^ 52 \<le> \<bar>n\<bar>" unfolding n_def by (rule round_half_even_abs_ge) simp
      have "\<bar>x / u\<bar> \<le> of_int (2 ^ 53)"
        unfolding qa using xb(2) u0 p53 by (simp add: pos_divide_le_eq)
      then have nu: "\<bar>n\<bar> \<le> 2 ^ 53" unfolding n_def by (rule round_half_even_abs_le)
      have zl: "2 powi e \<le> \<bar>z\<bar>"
      proof -
        have "(2::rat) ^ 52 \<le> of_int \<bar>n\<bar>" using nl by (metis of_int_le_iff of_int_numeral of_int_power)
        then have "2 ^ 52 * u \<le> of_int \<bar>n\<bar> * u" using u0 by simp
        then show ?thesis unfolding za p52 .
      qed
      show ?thesis
      proof (cases "\<bar>n\<bar> = 2 ^ 53")
        case True
        then have "\<bar>z\<bar> = 2 powi (e + 1)" unfolding za using p53 by simp
        moreover have "(2::rat) powi (e + 1) < 2 powi (e + 1 + 1)"
          using powi2_Suc [of "e + 1"] by simp
        ultimately have "2 powi (e + 1) \<le> \<bar>z\<bar>" "\<bar>z\<bar> < 2 powi (e + 1 + 1)"
          by linarith+
        with zpos have "expo \<bar>z\<bar> = e + 1" by (rule expo_unique)
        then have k': "max (expo \<bar>z\<bar>) (- 1022) - 52 = k + 1"
          using \<open>- 1022 \<le> e\<close> by (simp add: k)
        have "even \<bar>n\<bar>" unfolding True by simp
        then have "even n" by simp
        then obtain h where h: "n = 2 * h" by (auto elim: evenE)
        have "z = of_int h * 2 powi (k + 1)"
          unfolding z_def h powi2_Suc u_def by simp
        then show ?thesis unfolding k' by blast
      next
        case False
        with nu have "\<bar>n\<bar> < 2 ^ 53" by simp
        then have "of_int \<bar>n\<bar> < (2::rat) ^ 53" by (metis of_int_less_iff of_int_numeral of_int_power)
        then have "of_int \<bar>n\<bar> * u < 2 ^ 53 * u" using u0 by simp
        then have "\<bar>z\<bar> < 2 powi (e + 1)" unfolding za p53 .
        with zpos zl have "expo \<bar>z\<bar> = e" by (rule expo_unique)
        then have "max (expo \<bar>z\<bar>) (- 1022) - 52 = k" by (simp add: k_def)
        then show ?thesis unfolding z_def u_def by auto
      qed
    next
      case False
      then have k: "k = - 1074" by (simp add: k_def)
      have p52: "2 ^ 52 * u = 2 powi (- 1022)"
        using power_int_add [of "2::rat" 52 k] by (simp add: u_def k)
      have "(2::rat) powi (e + 1) \<le> 2 powi (- 1022)" using False by (intro powi2_mono) simp
      with xb(2) have "\<bar>x\<bar> \<le> 2 ^ 52 * u" unfolding p52 by linarith
      then have "\<bar>x / u\<bar> \<le> of_int (2 ^ 52)"
        unfolding qa using u0 by (simp add: pos_divide_le_eq)
      then have nu: "\<bar>n\<bar> \<le> 2 ^ 52" unfolding n_def by (rule round_half_even_abs_le)
      then have "of_int \<bar>n\<bar> \<le> (2::rat) ^ 52" by (metis of_int_le_iff of_int_numeral of_int_power)
      then have "of_int \<bar>n\<bar> * u \<le> 2 ^ 52 * u" using u0 by simp
      then have "\<bar>z\<bar> \<le> 2 powi (- 1022)" unfolding za p52 .
      moreover have "(2::rat) powi (- 1022) < 2 powi (- 1021)"
        using powi2_Suc [of "- 1022"] by simp
      ultimately have "\<bar>z\<bar> < 2 powi (- 1021)" by linarith
      moreover from expo_bounds [OF zpos] have "2 powi (expo \<bar>z\<bar>) \<le> \<bar>z\<bar>" by simp
      ultimately have "(2::rat) powi (expo \<bar>z\<bar>) < 2 powi (- 1021)" by linarith
      then have "expo \<bar>z\<bar> < - 1021" by (rule powi2_less_imp)
      then have "max (expo \<bar>z\<bar>) (- 1022) - 52 = k" by (simp add: k)
      then show ?thesis unfolding z_def u_def by auto
    qed
    then obtain m where "z = of_int m * 2 powi (max (expo \<bar>z\<bar>) (- 1022) - 52)" by blast
    then show ?thesis by (rule f64_fixed)
  qed
  then show ?thesis unfolding fx .
qed

subsection \<open>The normalizer in double precision\<close>

lemma f64_one: "f64 1 = 1"
  by code_simp

lemma f64_ten: "f64 10 = 10"
  by code_simp

lemma spec_base_f64_fixed: "f64 (spec_base_f64 polarity confidence) = spec_base_f64 polarity confidence"
  unfolding spec_base_f64_def fadd_def by (simp only: f64_idem if_distrib [of f64] if_cancel)

lemma clamp_twice_f64:
  assumes "f64 b = b"
  shows "max (f64 1.0) (min (f64 10.0) (fadd (max (f64 1.0) (min (f64 10.0) b)) 0)) = spec_clamp b"
proof -
  have c: "f64 1.0 = 1" "f64 10.0 = 10" using f64_one f64_ten by simp_all
  have "f64 (max 1 (min 10 b)) = max 1 (min 10 b)"
    using assms f64_one f64_ten by (simp add: max_def min_def)
  then show ?thesis
    unfolding c fadd_def by (simp add: spec_clamp_def max_def min_def)
qed

lemma base_score_f64_eq:
  "(if polarity < - f64 0.1 then
      (if confidence > f64 0.9
       then fadd (f64 1.0) (fmul (fadd polarity (f64 1)) (f64 1.5))
       else if confidence > f64 0.7
       then fadd (f64 1.5) (fmul (fadd polarity (f64 1)) (f64 1.5))
       else fadd (f64 2.5) (fmul (fadd polarity (f64 1)) (f64 1.0)))
    else if polarity > f64 0.1 then
      (if confidence > f64 0.9 then fadd (f64 8.5) (fmul polarity (f64 1.5))
       else if confidence > f64 0.7 then fadd (f64 7.0) (fmul polarity (f64 1.5))
       else fadd (f64 6.5) (fmul polarity (f64 0.5)))
    else
      (let base_score = fadd (f64 5.0) (fmul polarity (f64 0.8))
       in if confidence > f64 0.8 then f64 5.0
          else fadd base_score (fmul (fsub (f64 0.5) confidence) (f64 0.6))))
   = spec_base_f64 polarity confidence"
  unfolding spec_base_f64_def Let_def by (rule refl)

lemma convert_to_scale_f64_zero_jitter:
  "convert_to_scale_f64 (prob_dict p_n p_z p_p) 0 =
     spec_round1_f64 (spec_clamp (spec_base_f64 (spec_polarity_f64 p_n p_z p_p)
                                                  (spec_confidence p_n p_z p_p)))"
proof -
  have conf: "max p_n (max p_z p_p) = spec_confidence p_n p_z p_p"
    by (simp add: spec_confidence_def max.commute max.left_commute)
  have pol: "fsub p_p p_n = spec_polarity_f64 p_n p_z p_p"
    by (simp add: spec_polarity_f64_def)
  show ?thesis
    unfolding convert_to_scale_f64_def Let_def prob_dict_get conf pol
      base_score_f64_eq [unfolded Let_def] clamp_twice_f64 [OF spec_base_f64_fixed]
      spec_round1_f64_def
    by (rule refl)
qed

text \<open>
  Two evaluations. At \<open>(99/1024, 728/1024, 197/1024)\<close>, all binary64 numbers, the
  neutral branch gives a base score just below \<open>4.95\<close> in binary64 arithmetic and the
  score is \<open>4.9\<close>, where exact arithmetic gives \<open>4.95\<close> and the score \<open>5.0\<close>. At the
  floats \<open>0.3\<close>, \<open>0.3\<close>, \<open>0.4\<close> the polarity \<open>0.4 - 0.3\<close> is a binary64 number above
  the float \<open>0.1\<close>, so the positive branch is taken and the score is \<open>6.5\<close>.
\<close>

lemma convert_to_scale_f64_example_neutral:
  "convert_to_scale_f64 (prob_dict (99 / 1024) (728 / 1024) (197 / 1024)) 0 = f64 (49 / 10) \<and>
   convert_to_scale (prob_dict (99 / 1024) (728 / 1024) (197 / 1024)) 0 = 5"
proof -
  have "spec_round1_f64 (spec_clamp (spec_base_f64 (spec_polarity_f64 (99 / 1024) (728 / 1024) (197 / 1024))
          (Max {99 / 1024, 728 / 1024, 197 / 1024}))) = f64 (49 / 10)"
    by code_simp
  moreover have "py_round (spec_clamp (spec_base (spec_polarity (99 / 1024) (728 / 1024) (197 / 1024))
          (Max {99 / 1024, 728 / 1024, 197 / 1024 :: rat}))) 1 = 5"
    by code_simp
  ultimately show ?thesis
    unfolding convert_to_scale_f64_zero_jitter convert_to_scale_zero_jitter spec_confidence_def
    by simp
qed

lemma convert_to_scale_f64_example_positive:
  "convert_to_scale_f64 (prob_dict (f64 (3 / 10)) (f64 (3 / 10)) (f64 (4 / 10))) 0 = 13 / 2"
proof -
  have "spec_round1_f64 (spec_clamp (spec_base_f64
          (spec_polarity_f64 (f64 (3 / 10)) (f64 (3 / 10)) (f64 (4 / 10)))
          (Max {f64 (3 / 10), f64 (3 / 10), f64 (4 / 10)}))) = 13 / 2"
    by code_simp
  then show ?thesis
    unfolding convert_to_scale_f64_zero_jitter spec_confidence_def by simp
qed

text \<open>
  Claim C1. With the jitter term fixed to 0, the normalizer applied to the vector
  \<open>(p_n, p_z, p_p)\<close> computes polarity \<open>p_p - p_n\<close> and confidence
  \<open>max(p_n, p_z, p_p)\<close> and returns the piecewise base score of the specification,
  clamped to \<open>[1.0, 10.0]\<close> and rounded to one decimal place. The arithmetic is the
  program's: every literal, sum, difference and product is a binary64 number. With
  zero jitter the second clamp of the source changes nothing, because the clamped base
  score is a binary64 number and adding \<open>0.0\<close> to it is exact.
\<close>

theorem convert_to_scale_f64_refines_spec:
  "convert_to_scale_f64 (prob_dict p_n p_z p_p) 0 =
     spec_round1_f64 (spec_clamp (spec_base_f64 (spec_polarity_f64 p_n p_z p_p)
                                                  (spec_confidence p_n p_z p_p)))"
  by (rule convert_to_scale_f64_zero_jitter)

text \<open>
  Claim C3. For every probability dictionary (entries of any value, summing to 1 or
  not, present or absent) and every value of the jitter term, in particular every value
  in \<open>[-0.05, 0.05]\<close>, the score returned lies in \<open>[1.0, 10.0]\<close>.
\<close>

theorem convert_to_scale_in_range:
  "1.0 \<le> convert_to_scale probabilities variation \<and>
   convert_to_scale probabilities variation \<le> 10.0"
  unfolding convert_to_scale_def Let_def by (rule py_round_clamp)

text \<open>
  Claim C5. \<open>is_outlier\<close> holds exactly when the score is at most the low threshold or
  at least the high threshold, for all thresholds (also \<open>low \<ge> high\<close>); in particular
  \<open>is_outlier(3.0, 3.0, 7.5)\<close> and \<open>is_outlier(7.5, 3.0, 7.5)\<close> hold and
  \<open>is_outlier(3.1, 3.0, 7.5)\<close> does not.
\<close>

theorem is_outlier_iff:
  "(\<forall>score low high. is_outlier score low high = (score \<le> low \<or> score \<ge> high)) \<and>
   is_outlier 3.0 3.0 7.5 \<and> \<not> is_outlier 3.1 3.0 7.5 \<and> is_outlier 7.5 3.0 7.5"
  by (simp add: is_outlier_def)

section \<open>Text preprocessing is idempotent\<close>

lemma py_user: "py ''@user'' = [64, 117, 115, 101, 114]"
  by (simp add: py_def)

lemma py_http: "py ''http'' = [104, 116, 116, 112]"
  by (simp add: py_def)

lemma word_chars:
  "is_word a 117" "is_word a 115" "is_word a 101" "is_word a 114"
  "\<not> is_word a 64" "\<not> is_word a 32"
  by (simp_all add: is_word_def)

lemma space_chars:
  "is_space 32" "\<not> is_space 64" "\<not> is_space 117" "\<not> is_space 115" "\<not> is_space 101"
  "\<not> is_space 114" "\<not> is_space 104" "\<not> is_space 116" "\<not> is_space 112" "\<not> is_space 58"
  "\<not> is_space 47"
  by (simp_all add: is_space_def)

lemma takeWhile_user:
  "takeWhile (is_word a) cs = [117, 115, 101, 114] \<longleftrightarrow>
     (\<exists>z. cs = 117 # 115 # 101 # 114 # z \<and> (z = [] \<or> \<not> is_word a (hd z)))"
proof
  assume tw: "takeWhile (is_word a) cs = [117, 115, 101, 114]"
  define z where "z = dropWhile (is_word a) cs"
  have "cs = takeWhile (is_word a) cs @ z"
    by (simp add: z_def)
  then have cs: "cs = 117 # 115 # 101 # 114 # z" using tw by simp
  have "z = [] \<or> \<not> is_word a (hd z)"
    unfolding z_def using hd_dropWhile [of "is_word a" cs] by blast
  with cs show "\<exists>z. cs = 117 # 115 # 101 # 114 # z \<and> (z = [] \<or> \<not> is_word a (hd z))"
    by blast
next
  assume "\<exists>z. cs = 117 # 115 # 101 # 114 # z \<and> (z = [] \<or> \<not> is_word a (hd z))"
  then obtain z where cs: "cs = 117 # 115 # 101 # 114 # z"
    and z: "z = [] \<or> \<not> is_word a (hd z)" by blast
  from z have "takeWhile (is_word a) z = []"
    by (cases z) auto
  then show "takeWhile (is_word a) cs = [117, 115, 101, 114]"
    by (simp add: cs word_chars)
qed

lemma mention_normal_suffix: "mention_normal a (xs @ ys) \<Longrightarrow> mention_normal a ys"
  by (induction xs) simp_all

lemma mention_normal_dropWhile: "mention_normal a s \<Longrightarrow> mention_normal a (dropWhile P s)"
  using mention_normal_suffix [of a "takeWhile P s" "dropWhile P s"] by simp

lemma sub_mentions_Nil: "(sub_mentions a s = []) = (s = [])"
  by (cases s) (simp_all add: py_user)

lemma sub_mentions_hd: "s \<noteq> [] \<Longrightarrow> hd (sub_mentions a s) = hd s"
  by (cases s) (simp_all add: py_user)

lemma mention_normal_fixed: "mention_normal a s \<Longrightarrow> sub_mentions a s = s"
proof (induction a s rule: sub_mentions.induct)
  case (1 a)
  show ?case by simp
next
  case (2 a c cs)
  show ?case
  proof (cases "c = 64 \<and> cs \<noteq> [] \<and> is_word a (hd cs)")
    case True
    from "2.prems" True have tw: "takeWhile (is_word a) cs = [117, 115, 101, 114]"
      and mn: "mention_normal a cs" by simp_all
    have "sub_mentions a (dropWhile (is_word a) cs) = dropWhile (is_word a) cs"
      using "2.IH"(1) True mn mention_normal_dropWhile by blast
    then have "sub_mentions a (c # cs) = 64 # takeWhile (is_word a) cs @ dropWhile (is_word a) cs"
      using True by (simp add: py_user tw)
    then show ?thesis using True by simp
  next
    case False
    then show ?thesis using "2.IH"(2) "2.prems" by auto
  qed
qed

lemma mention_normal_sub_mentions: "mention_normal a (sub_mentions a s)"
proof (induction a s rule: sub_mentions.induct)
  case (1 a)
  show ?case by simp
next
  case (2 a c cs)
  show ?case
  proof (cases "c = 64 \<and> cs \<noteq> [] \<and> is_word a (hd cs)")
    case True
    define y where "y = sub_mentions a (dropWhile (is_word a) cs)"
    have y: "mention_normal a y" unfolding y_def using "2.IH"(1) True by blast
    have "y = [] \<or> \<not> is_word a (hd y)"
      unfolding y_def using sub_mentions_hd [of "dropWhile (is_word a) cs" a]
        sub_mentions_Nil [of a "dropWhile (is_word a) cs"]
        hd_dropWhile [of "is_word a" cs] by metis
    then have tw: "takeWhile (is_word a) (117 # 115 # 101 # 114 # y) = [117, 115, 101, 114]"
      unfolding takeWhile_user by blast
    have out: "sub_mentions a (c # cs) = 64 # 117 # 115 # 101 # 114 # y"
      using True by (simp add: py_user y_def)
    show ?thesis unfolding out using y tw by (simp add: word_chars)
  next
    case False
    have out: "sub_mentions a (c # cs) = c # sub_mentions a cs" using False by auto
    have "\<not> (c = 64 \<and> sub_mentions a cs \<noteq> [] \<and> is_word a (hd (sub_mentions a cs)))"
      using False sub_mentions_hd [of cs a] sub_mentions_Nil [of a cs] by metis
    then show ?thesis unfolding out using "2.IH"(2) False by auto
  qed
qed

lemma sub_urls_Nil: "(sub_urls s = []) = (s = [])"
  by (cases s) (simp_all add: py_http split: option.split)

lemma match_url_hd: "match_url (c # cs) = Some r \<Longrightarrow> c = 104"
  unfolding match_url_Some by auto

lemma sub_urls_hd: "s \<noteq> [] \<Longrightarrow> hd (sub_urls s) = hd s"
  by (cases s) (auto simp: py_http split: option.split dest: match_url_hd)

lemma match_url_suffix: "match_url s = Some rest \<Longrightarrow> \<exists>p. s = p @ rest"
proof -
  assume "match_url s = Some rest"
  then obtain x r where rest: "rest = dropWhile (\<lambda>c. \<not> is_space c) r"
    and s: "s = 104 # 116 # 116 # 112 # 115 # 58 # 47 # 47 # x # r \<or>
         s = 104 # 116 # 116 # 112 # 58 # 47 # 47 # x # r"
    unfolding match_url_Some by blast
  have r: "r = takeWhile (\<lambda>c. \<not> is_space c) r @ rest" by (simp add: rest)
  from s show ?thesis
  proof
    assume "s = 104 # 116 # 116 # 112 # 115 # 58 # 47 # 47 # x # r"
    then have "s = (104 # 116 # 116 # 112 # 115 # 58 # 47 # 47 # x #
        takeWhile (\<lambda>c. \<not> is_space c) r) @ rest" using r by simp
    then show ?thesis by blast
  next
    assume "s = 104 # 116 # 116 # 112 # 58 # 47 # 47 # x # r"
    then have "s = (104 # 116 # 116 # 112 # 58 # 47 # 47 # x #
        takeWhile (\<lambda>c. \<not> is_space c) r) @ rest" using r by simp
    then show ?thesis by blast
  qed
qed

lemma match_url_rest_space: "match_url s = Some rest \<Longrightarrow> rest = [] \<or> is_space (hd rest)"
proof -
  assume "match_url s = Some rest"
  then obtain r where rest: "rest = dropWhile (\<lambda>c. \<not> is_space c) r"
    unfolding match_url_Some by blast
  show ?thesis unfolding rest using hd_dropWhile [of "\<lambda>c. \<not> is_space c" r] by blast
qed

lemma url_free_suffix: "url_free (xs @ ys) \<Longrightarrow> url_free ys"
  by (induction xs) simp_all

lemma url_free_fixed: "url_free s \<Longrightarrow> sub_urls s = s"
  by (induction s) simp_all

lemma sub_urls_prefix:
  "104 \<notin> set p \<Longrightarrow> sub_urls cs = p @ q \<Longrightarrow>
     \<exists>q'. cs = p @ q' \<and> (q = [] \<longleftrightarrow> q' = []) \<and> (q \<noteq> [] \<longrightarrow> hd q = hd q')"
proof (induction p arbitrary: cs)
  case Nil
  then show ?case using sub_urls_Nil [of cs] sub_urls_hd [of cs] by auto
next
  case (Cons a p)
  from Cons.prems(2) have "cs \<noteq> []" using sub_urls_Nil [of cs] by auto
  then obtain c cs' where cs: "cs = c # cs'" by (cases cs) auto
  show ?case
  proof (cases "match_url (c # cs')")
    case None
    then have "sub_urls cs = c # sub_urls cs'" by (simp add: cs)
    with Cons.prems(2) have a: "a = c" and rest: "sub_urls cs' = p @ q" by simp_all
    from Cons.prems(1) have "104 \<notin> set p" by simp
    from Cons.IH [OF this rest] obtain q' where
      "cs' = p @ q'" "(q = [] \<longleftrightarrow> q' = [])" "(q \<noteq> [] \<longrightarrow> hd q = hd q')" by blast
    then show ?thesis using a cs by auto
  next
    case (Some rest)
    then have "hd (sub_urls cs) = 104" by (simp add: cs py_http)
    with Cons.prems show ?thesis by auto
  qed
qed

lemma match_url_None_if: "c \<noteq> 104 \<Longrightarrow> match_url (c # cs) = None"
  using match_url_hd [of c cs] by (cases "match_url (c # cs)") auto

lemma match_url_http_space:
  "y = [] \<or> is_space (hd y) \<Longrightarrow> match_url (104 # 116 # 116 # 112 # y) = None"
proof (cases "match_url (104 # 116 # 116 # 112 # y)")
  case None
  then show ?thesis by simp
next
  case (Some rest)
  assume y: "y = [] \<or> is_space (hd y)"
  from Some obtain x r where "y = 115 # 58 # 47 # 47 # x # r \<or> y = 58 # 47 # 47 # x # r"
    unfolding match_url_Some by auto
  with y show ?thesis by (auto simp: space_chars)
qed

lemma url_free_http: "url_free y \<Longrightarrow> y = [] \<or> is_space (hd y) \<Longrightarrow>
    url_free (104 # 116 # 116 # 112 # y)"
  by (simp add: match_url_http_space match_url_None_if)

lemma match_url_Cons_sub_urls:
  assumes "match_url (c # cs) = None"
  shows "match_url (c # sub_urls cs) = None"
proof (cases "match_url (c # sub_urls cs)")
  case None
  then show ?thesis by simp
next
  case (Some rest)
  then obtain x r where x: "\<not> is_space x"
    and c: "c = 104"
    and y: "sub_urls cs = [116, 116, 112, 115, 58, 47, 47] @ x # r \<or>
            sub_urls cs = [116, 116, 112, 58, 47, 47] @ x # r"
    unfolding match_url_Some by auto
  from y have "\<exists>rest'. match_url (c # cs) = Some rest'"
  proof
    assume "sub_urls cs = [116, 116, 112, 115, 58, 47, 47] @ x # r"
    from sub_urls_prefix [OF _ this] obtain q' where
      "cs = [116, 116, 112, 115, 58, 47, 47] @ q'" "q' \<noteq> []" "hd q' = x" by auto
    then have "c # cs = 104 # 116 # 116 # 112 # 115 # 58 # 47 # 47 # x # tl q'"
      using c by (cases q') auto
    then show ?thesis unfolding match_url_Some using x by blast
  next
    assume "sub_urls cs = [116, 116, 112, 58, 47, 47] @ x # r"
    from sub_urls_prefix [OF _ this] obtain q' where
      "cs = [116, 116, 112, 58, 47, 47] @ q'" "q' \<noteq> []" "hd q' = x" by auto
    then have "c # cs = 104 # 116 # 116 # 112 # 58 # 47 # 47 # x # tl q'"
      using c by (cases q') auto
    then show ?thesis unfolding match_url_Some using x by blast
  qed
  with assms show ?thesis by simp
qed

lemma url_free_sub_urls: "url_free (sub_urls s)"
proof (induction s rule: sub_urls.induct)
  case 1
  show ?case by simp
next
  case (2 c cs)
  show ?case
  proof (cases "match_url (c # cs)")
    case None
    then have out: "sub_urls (c # cs) = c # sub_urls cs" by simp
    show ?thesis unfolding out
      using "2.IH"(1) [OF None] match_url_Cons_sub_urls [OF None] by simp
  next
    case (Some rest)
    then have out: "sub_urls (c # cs) = 104 # 116 # 116 # 112 # sub_urls rest"
      by (simp add: py_http)
    have "rest = [] \<or> is_space (hd rest)" using Some by (rule match_url_rest_space)
    then have "sub_urls rest = [] \<or> is_space (hd (sub_urls rest))"
      using sub_urls_Nil [of rest] sub_urls_hd [of rest] by auto
    then show ?thesis unfolding out using "2.IH"(2) [OF Some] by (rule url_free_http [rotated])
  qed
qed

lemma mention_normal_sub_urls: "mention_normal a s \<Longrightarrow> mention_normal a (sub_urls s)"
proof (induction s rule: sub_urls.induct)
  case 1
  show ?case by simp
next
  case (2 c cs)
  show ?case
  proof (cases "match_url (c # cs)")
    case None
    then have out: "sub_urls (c # cs) = c # sub_urls cs" by simp
    from "2.prems" have mn: "mention_normal a cs" by simp
    have ih: "mention_normal a (sub_urls cs)" using "2.IH"(1) [OF None mn] .
    have "takeWhile (is_word a) (sub_urls cs) = [117, 115, 101, 114]"
      if "c = 64" "sub_urls cs \<noteq> []" "is_word a (hd (sub_urls cs))"
    proof -
      from that have "cs \<noteq> []" "is_word a (hd cs)"
        using sub_urls_Nil [of cs] sub_urls_hd [of cs] by auto
      with "2.prems" that(1) have "takeWhile (is_word a) cs = [117, 115, 101, 114]" by simp
      then obtain z where cs: "cs = 117 # 115 # 101 # 114 # z"
        and z: "z = [] \<or> \<not> is_word a (hd z)"
        unfolding takeWhile_user by blast
      have su: "sub_urls cs = 117 # 115 # 101 # 114 # sub_urls z"
        unfolding cs by (simp add: match_url_None_if)
      have "sub_urls z = [] \<or> \<not> is_word a (hd (sub_urls z))"
        using z sub_urls_Nil [of z] sub_urls_hd [of z] by auto
      then show ?thesis unfolding su takeWhile_user by blast
    qed
    then show ?thesis unfolding out using ih by simp
  next
    case (Some rest)
    then have out: "sub_urls (c # cs) = 104 # 116 # 116 # 112 # sub_urls rest"
      by (simp add: py_http)
    from match_url_suffix [OF Some] obtain p where "c # cs = p @ rest" by blast
    with "2.prems" have "mention_normal a rest"
      using mention_normal_suffix [of a p rest] by simp
    then have "mention_normal a (sub_urls rest)" using "2.IH"(2) [OF Some] by blast
    then show ?thesis unfolding out by simp
  qed
qed

lemma collapse_ws_Nil: "(collapse_ws s = []) = (s = [])"
  by (cases s) simp_all

lemma collapse_ws_hd:
  "s \<noteq> [] \<Longrightarrow> hd (collapse_ws s) = (if is_space (hd s) then 32 else hd s)"
  by (cases s) simp_all

lemma collapse_ws_hd_space:
  "s \<noteq> [] \<Longrightarrow> is_space (hd (collapse_ws s)) = is_space (hd s)"
  by (simp add: collapse_ws_hd space_chars)

lemma collapse_ws_prefix:
  "\<forall>x\<in>set p. \<not> is_space x \<Longrightarrow> collapse_ws cs = p @ q \<Longrightarrow>
     \<exists>q'. cs = p @ q' \<and> (q = [] \<longleftrightarrow> q' = []) \<and>
          (q \<noteq> [] \<longrightarrow> is_space (hd q) = is_space (hd q'))"
proof (induction p arbitrary: cs)
  case Nil
  then show ?case using collapse_ws_Nil [of cs] collapse_ws_hd_space [of cs] by auto
next
  case (Cons a p)
  from Cons.prems(2) have "cs \<noteq> []" using collapse_ws_Nil [of cs] by auto
  then obtain c cs' where cs: "cs = c # cs'" by (cases cs) auto
  from Cons.prems(1) have a: "\<not> is_space a" and p: "\<forall>x\<in>set p. \<not> is_space x" by simp_all
  have nsp: "\<not> is_space c"
  proof
    assume "is_space c"
    then have "hd (collapse_ws cs) = 32" by (simp add: cs)
    with Cons.prems(2) have "a = 32" by simp
    with a show False by (simp add: space_chars)
  qed
  then have "collapse_ws cs = c # collapse_ws cs'" by (simp add: cs)
  with Cons.prems(2) have ac: "a = c" and rest: "collapse_ws cs' = p @ q" by simp_all
  from Cons.IH [OF p rest] obtain q' where
    "cs' = p @ q'" "(q = [] \<longleftrightarrow> q' = [])" "(q \<noteq> [] \<longrightarrow> is_space (hd q) = is_space (hd q'))"
    by blast
  then show ?case using ac cs by auto
qed

lemma match_url_Cons_collapse_ws:
  assumes "match_url (c # cs) = None"
  shows "match_url (c # collapse_ws cs) = None"
proof (cases "match_url (c # collapse_ws cs)")
  case None
  then show ?thesis by simp
next
  case (Some rest)
  then obtain x r where x: "\<not> is_space x"
    and c: "c = 104"
    and y: "collapse_ws cs = [116, 116, 112, 115, 58, 47, 47] @ x # r \<or>
            collapse_ws cs = [116, 116, 112, 58, 47, 47] @ x # r"
    unfolding match_url_Some by auto
  from y have "\<exists>rest'. match_url (c # cs) = Some rest'"
  proof
    assume "collapse_ws cs = [116, 116, 112, 115, 58, 47, 47] @ x # r"
    from collapse_ws_prefix [OF _ this] obtain q' where
      "cs = [116, 116, 112, 115, 58, 47, 47] @ q'" "q' \<noteq> []" "\<not> is_space (hd q')"
      using x by (auto simp: space_chars)
    then have "c # cs = 104 # 116 # 116 # 112 # 115 # 58 # 47 # 47 # hd q' # tl q'"
      "\<not> is_space (hd q')"
      using c by (cases q'; auto)+
    then show ?thesis unfolding match_url_Some by blast
  next
    assume "collapse_ws cs = [116, 116, 112, 58, 47, 47] @ x # r"
    from collapse_ws_prefix [OF _ this] obtain q' where
      "cs = [116, 116, 112, 58, 47, 47] @ q'" "q' \<noteq> []" "\<not> is_space (hd q')"
      using x by (auto simp: space_chars)
    then have "c # cs = 104 # 116 # 116 # 112 # 58 # 47 # 47 # hd q' # tl q'"
      "\<not> is_space (hd q')"
      using c by (cases q'; auto)+
    then show ?thesis unfolding match_url_Some by blast
  qed
  with assms show ?thesis by simp
qed

lemma url_free_dropWhile: "url_free s \<Longrightarrow> url_free (dropWhile P s)"
  using url_free_suffix [of "takeWhile P s" "dropWhile P s"] by simp

lemma url_free_collapse_ws: "url_free s \<Longrightarrow> url_free (collapse_ws s)"
proof (induction s rule: collapse_ws.induct)
  case 1
  show ?case by simp
next
  case (2 c cs)
  from "2.prems" have m: "match_url (c # cs) = None" and uf: "url_free cs" by simp_all
  show ?case
  proof (cases "is_space c")
    case True
    then have "c \<noteq> 104" using space_chars by auto
    have "url_free (collapse_ws (dropWhile is_space cs))"
      using "2.IH"(1) [OF True] uf url_free_dropWhile by blast
    then show ?thesis using True by (simp add: match_url_None_if)
  next
    case False
    have "url_free (collapse_ws cs)" using "2.IH"(2) [OF False uf] .
    then show ?thesis using False match_url_Cons_collapse_ws [OF m] by simp
  qed
qed

lemma mention_normal_collapse_ws:
  "mention_normal a s \<Longrightarrow> mention_normal a (collapse_ws s)"
proof (induction s rule: collapse_ws.induct)
  case 1
  show ?case by simp
next
  case (2 c cs)
  from "2.prems" have mn: "mention_normal a cs" by simp
  show ?case
  proof (cases "is_space c")
    case True
    then have c: "c \<noteq> 64" using space_chars by auto
    have "mention_normal a (collapse_ws (dropWhile is_space cs))"
      using "2.IH"(1) [OF True] mn mention_normal_dropWhile by blast
    then show ?thesis using True by simp
  next
    case False
    then have out: "collapse_ws (c # cs) = c # collapse_ws cs" by simp
    have ih: "mention_normal a (collapse_ws cs)" using "2.IH"(2) [OF False mn] .
    have "takeWhile (is_word a) (collapse_ws cs) = [117, 115, 101, 114]"
      if "c = 64" "collapse_ws cs \<noteq> []" "is_word a (hd (collapse_ws cs))"
    proof -
      from that(2) have ne: "cs \<noteq> []" using collapse_ws_Nil [of cs] by auto
      have "hd (collapse_ws cs) \<noteq> 32" using that(3) word_chars(6) [of a] by auto
      then have "hd (collapse_ws cs) = hd cs" using collapse_ws_hd [OF ne] by (auto split: if_splits)
      with that(3) have "is_word a (hd cs)" by simp
      with "2.prems" that(1) ne have "takeWhile (is_word a) cs = [117, 115, 101, 114]" by simp
      then obtain z where cs: "cs = 117 # 115 # 101 # 114 # z"
        and z: "z = [] \<or> \<not> is_word a (hd z)"
        unfolding takeWhile_user by blast
      have su: "collapse_ws cs = 117 # 115 # 101 # 114 # collapse_ws z"
        unfolding cs by (simp add: space_chars)
      have "collapse_ws z = [] \<or> \<not> is_word a (hd (collapse_ws z))"
      proof (cases "z = []")
        case True
        then show ?thesis by simp
      next
        case False
        with z have "\<not> is_word a (hd z)" by simp
        then have "\<not> is_word a (hd (collapse_ws z))"
          using collapse_ws_hd [OF False] word_chars(6) [of a] by auto
        then show ?thesis by simp
      qed
      then show ?thesis unfolding su takeWhile_user by blast
    qed
    then show ?thesis unfolding out using ih by simp
  qed
qed

lemma ws_normal_suffix: "ws_normal (xs @ ys) \<Longrightarrow> ws_normal ys"
  by (induction xs) simp_all

lemma ws_normal_prefix: "ws_normal (xs @ ys) \<Longrightarrow> ws_normal xs"
proof (induction xs)
  case Nil
  show ?case by simp
next
  case (Cons c xs)
  then show ?case by (cases xs) auto
qed

lemma ws_normal_fixed: "ws_normal s \<Longrightarrow> collapse_ws s = s"
proof (induction s rule: collapse_ws.induct)
  case 1
  show ?case by simp
next
  case (2 c cs)
  from "2.prems" have wn: "ws_normal cs" by simp
  show ?case
  proof (cases "is_space c")
    case True
    with "2.prems" have c: "c = 32" and cs: "cs = [] \<or> \<not> is_space (hd cs)" by auto
    from cs have d: "dropWhile is_space cs = cs" by (cases cs) auto
    show ?thesis using True c d "2.IH"(1) [OF True] wn by simp
  next
    case False
    then show ?thesis using "2.IH"(2) [OF False wn] by simp
  qed
qed

lemma ws_normal_collapse_ws: "ws_normal (collapse_ws s)"
proof (induction s rule: collapse_ws.induct)
  case 1
  show ?case by simp
next
  case (2 c cs)
  show ?case
  proof (cases "is_space c")
    case True
    define d where "d = dropWhile is_space cs"
    have d: "d = [] \<or> \<not> is_space (hd d)"
      unfolding d_def using hd_dropWhile [of is_space cs] by blast
    then have "collapse_ws d = [] \<or> \<not> is_space (hd (collapse_ws d))"
      using collapse_ws_Nil [of d] collapse_ws_hd_space [of d] by auto
    moreover have "ws_normal (collapse_ws d)" unfolding d_def using "2.IH"(1) [OF True] .
    ultimately show ?thesis using True by (auto simp: d_def)
  next
    case False
    then show ?thesis using "2.IH"(2) [OF False] by simp
  qed
qed

lemma rstrip_prefix: "\<exists>ys. s = rev (dropWhile P (rev s)) @ ys \<and> (\<forall>y\<in>set ys. P y)"
proof -
  have "s = rev (dropWhile P (rev s)) @ rev (takeWhile P (rev s))"
    by (metis rev_append rev_rev_ident takeWhile_dropWhile_id)
  moreover have "\<forall>y\<in>set (rev (takeWhile P (rev s))). P y"
    by (auto dest: set_takeWhileD)
  ultimately show ?thesis by blast
qed

lemma strip_decomp:
  "\<exists>xs ys. s = xs @ strip s @ ys \<and> (\<forall>y\<in>set ys. is_space y)"
proof -
  define x where "x = dropWhile is_space s"
  have s: "s = takeWhile is_space s @ x" by (simp add: x_def)
  from rstrip_prefix [of x is_space] obtain ys where
    "x = strip s @ ys" "\<forall>y\<in>set ys. is_space y"
    unfolding strip_def x_def by blast
  with s show ?thesis by metis
qed

lemma strip_fixed: "strip (strip s) = strip s"
proof -
  define x where "x = dropWhile is_space s"
  define d where "d = dropWhile is_space (rev x)"
  have t: "strip s = rev d" by (simp add: strip_def d_def x_def)
  have dd: "dropWhile is_space d = d" by (simp add: d_def)
  have "dropWhile is_space (rev d) = rev d"
  proof (cases "rev d")
    case Nil
    then show ?thesis by simp
  next
    case (Cons h t')
    from rstrip_prefix [of x is_space] obtain ys where x: "x = rev d @ ys"
      unfolding d_def by blast
    then have "hd x = h" "x \<noteq> []" using Cons by simp_all
    then have "\<not> is_space h"
      unfolding x_def using hd_dropWhile [of is_space s] by blast
    then show ?thesis using Cons by simp
  qed
  then have "strip (rev d) = rev d"
    unfolding strip_def by (simp add: dd)
  then show ?thesis unfolding t .
qed

lemma takeWhile_append_cut:
  assumes "takeWhile P (xs @ ys) = u" "\<forall>y\<in>set ys. Q y" "\<forall>x\<in>set u. \<not> Q x"
  shows "takeWhile P xs = u"
proof (cases "\<forall>x\<in>set xs. P x")
  case True
  then have u: "u = xs @ takeWhile P ys" using assms(1) by simp
  have "takeWhile P ys = []"
  proof (cases "takeWhile P ys")
    case Nil
    then show ?thesis .
  next
    case (Cons h t)
    then have "h \<in> set ys" using set_takeWhileD [of h P ys] by simp
    moreover have "h \<in> set u" using u Cons by simp
    ultimately show ?thesis using assms(2,3) by blast
  qed
  with u True show ?thesis by simp
next
  case False
  then obtain x where "x \<in> set xs" "\<not> P x" by blast
  then have "takeWhile P (xs @ ys) = takeWhile P xs" by (rule takeWhile_append1)
  with assms(1) show ?thesis by simp
qed

lemma mention_normal_prefix:
  "mention_normal a (xs @ ys) \<Longrightarrow> \<forall>y\<in>set ys. is_space y \<Longrightarrow> mention_normal a xs"
proof (induction xs)
  case Nil
  show ?case by simp
next
  case (Cons c xs)
  from Cons.prems(1) have "mention_normal a (xs @ ys)" by simp
  then have ih: "mention_normal a xs" using Cons.IH Cons.prems(2) by blast
  have "takeWhile (is_word a) xs = [117, 115, 101, 114]"
    if "c = 64" "xs \<noteq> []" "is_word a (hd xs)"
  proof -
    from that Cons.prems(1) have "takeWhile (is_word a) (xs @ ys) = [117, 115, 101, 114]"
      by simp
    then show ?thesis using Cons.prems(2)
      by (rule takeWhile_append_cut) (auto simp: space_chars)
  qed
  then show ?case using ih by simp
qed

lemma match_url_append: "match_url s = Some r \<Longrightarrow> \<exists>r'. match_url (s @ ys) = Some r'"
  unfolding match_url_Some by auto

lemma url_free_prefix: "url_free (xs @ ys) \<Longrightarrow> url_free xs"
proof (induction xs)
  case Nil
  show ?case by simp
next
  case (Cons c xs)
  then have "match_url ((c # xs) @ ys) = None" "url_free xs" by simp_all
  moreover have "match_url (c # xs) = None"
    using match_url_append [of "c # xs" _ ys] calculation(1)
    by (cases "match_url (c # xs)") auto
  ultimately show ?case by simp
qed

lemma normal_strip:
  assumes "mention_normal a s" "url_free s" "ws_normal s"
  shows "mention_normal a (strip s)" "url_free (strip s)" "ws_normal (strip s)"
proof -
  from strip_decomp [of s] obtain xs ys where
    s: "s = xs @ strip s @ ys" and ys: "\<forall>y\<in>set ys. is_space y" by blast
  have "mention_normal a (strip s @ ys)"
    using assms(1) mention_normal_suffix [of a xs "strip s @ ys"] s by simp
  then show "mention_normal a (strip s)" using ys by (rule mention_normal_prefix)
  have "url_free (strip s @ ys)" using assms(2) url_free_suffix [of xs "strip s @ ys"] s by simp
  then show "url_free (strip s)" by (rule url_free_prefix)
  have "ws_normal (strip s @ ys)" using assms(3) ws_normal_suffix [of xs "strip s @ ys"] s by simp
  then show "ws_normal (strip s)" by (rule ws_normal_prefix)
qed

text \<open>
  Claim C10. Text preprocessing is idempotent: preprocessing an already preprocessed
  string changes nothing, whatever the Unicode alphanumeric table is.
\<close>

theorem preprocess_text_idempotent:
  "preprocess_text isalnum (preprocess_text isalnum s) = preprocess_text isalnum s"
proof -
  define t where "t = collapse_ws (sub_urls (sub_mentions isalnum s))"
  have d: "preprocess_text isalnum s = strip t"
    by (simp add: preprocess_text_def t_def)
  have "mention_normal isalnum t"
    unfolding t_def
    by (intro mention_normal_collapse_ws mention_normal_sub_urls mention_normal_sub_mentions)
  moreover have "url_free t"
    unfolding t_def by (intro url_free_collapse_ws url_free_sub_urls)
  moreover have "ws_normal t"
    unfolding t_def by (rule ws_normal_collapse_ws)
  ultimately have n: "mention_normal isalnum (strip t)" "url_free (strip t)" "ws_normal (strip t)"
    by (rule normal_strip)+
  have "preprocess_text isalnum (strip t) = strip (strip t)"
    unfolding preprocess_text_def Let_def
    by (simp only: mention_normal_fixed [OF n(1)] url_free_fixed [OF n(2)] ws_normal_fixed [OF n(3)])
  then show ?thesis unfolding d by (simp only: strip_fixed)
qed

section \<open>Properties of sentiment analysis\<close>

lemma strip_Nil_iff: "strip s = [] \<longleftrightarrow> (\<forall>c\<in>set s. is_space c)"
proof -
  have a: "strip s = [] \<longleftrightarrow> (\<forall>x\<in>set (dropWhile is_space s). is_space x)"
    by (simp add: strip_def dropWhile_eq_Nil_conv)
  have b: "(\<forall>x\<in>set (dropWhile is_space s). is_space x) \<longleftrightarrow> dropWhile is_space s = []"
  proof
    assume all: "\<forall>x\<in>set (dropWhile is_space s). is_space x"
    show "dropWhile is_space s = []"
    proof (rule ccontr)
      assume ne: "dropWhile is_space s \<noteq> []"
      then have "hd (dropWhile is_space s) \<in> set (dropWhile is_space s)" by (rule hd_in_set)
      with all have "is_space (hd (dropWhile is_space s))" by blast
      with hd_dropWhile [OF ne] show False by blast
    qed
  next
    assume e: "dropWhile is_space s = []"
    show "\<forall>x\<in>set (dropWhile is_space s). is_space x" unfolding e by simp
  qed
  from a b have "strip s = [] \<longleftrightarrow> dropWhile is_space s = []" by blast
  then show ?thesis by (simp only: dropWhile_eq_Nil_conv)
qed

text \<open>
  Claim C4. Whatever sentiment analysis returns, on the classified path and on both
  neutral fallback paths, the label is fixed by the score alone: NEGATIVE exactly when
  the score is at most 3.5, POSITIVE exactly when it is at least 6.5, NEUTRAL exactly
  in between. The outlier thresholds are no input of the function.
\<close>

theorem analyze_sentiment_label_cut_points:
  "analyze_sentiment isalnum predict variation text0 = ((score, lab), calls) \<Longrightarrow>
     (lab = NEGATIVE \<longleftrightarrow> score \<le> 3.5) \<and>
     (lab = POSITIVE \<longleftrightarrow> score \<ge> 6.5) \<and>
     (lab = NEUTRAL \<longleftrightarrow> 3.5 < score \<and> score < 6.5)"
  unfolding analyze_sentiment_def Let_def
  by (auto split: if_splits sum.splits prod.splits)

theorem analyze_sentiment_label_cut_points_witness:
  "analyze_sentiment (\<lambda>c. False) (\<lambda>t. Inr (19 / 20, 3 / 100, 1 / 50)) 0 (py ''bad'')
     = ((11 / 10, NEGATIVE), [py ''bad'']) \<and>
   (11 / 10 :: rat) \<le> 3.5 \<and> \<not> (11 / 10 :: rat) \<ge> 6.5"
proof -
  have pre: "preprocess_text (\<lambda>c. False) (py ''bad'') = py ''bad''"
    by (simp add: preprocess_text_def py_def is_space_def is_word_def match_url_def
        strip_prefix_def url_tail_def nonspace_run_def strip_def)
  have st: "strip (py ''bad'') \<noteq> []"
    by (simp add: py_def is_space_def strip_def)
  have ne: "py ''bad'' \<noteq> []" by (simp add: py_def)
  have base: "spec_clamp (spec_base (spec_polarity (19 / 20) (3 / 100) (1 / 50))
      (spec_confidence (19 / 20) (3 / 100) (1 / 50))) = 221 / 200"
    by (simp add: spec_polarity_def spec_confidence_def spec_base_def spec_clamp_def)
  have rnd: "py_round (221 / 200) 1 = 11 / 10"
    by code_simp
  have sc: "convert_to_scale (prob_dict (19 / 20) (3 / 100) (1 / 50)) 0 = 11 / 10"
    unfolding convert_to_scale_zero_jitter base rnd by simp
  have ev: "analyze_sentiment (\<lambda>c. False) (\<lambda>t. Inr (19 / 20, 3 / 100, 1 / 50)) 0 (py ''bad'')
     = ((11 / 10, NEGATIVE), [py ''bad''])"
    unfolding analyze_sentiment_def Let_def pre using st ne by (simp add: sc)
  from analyze_sentiment_label_cut_points [OF ev] ev show ?thesis by simp
qed

text \<open>
  Claim C6. An empty or whitespace-only text gives exactly \<open>(5.0, NEUTRAL)\<close> and the
  classifier is invoked on nothing; and when the classifier raises, whatever the
  exception, the result is \<open>(5.0, NEUTRAL)\<close> as well.
\<close>

theorem analyze_sentiment_fallback:
  "(text0 = [] \<or> (\<forall>c\<in>set text0. is_space c) \<longrightarrow>
      analyze_sentiment isalnum predict variation text0 = ((5.0, NEUTRAL), [])) \<and>
   (predict (preprocess_text isalnum text0) = Inl e \<longrightarrow>
      fst (analyze_sentiment isalnum predict variation text0) = (5.0, NEUTRAL))"
  unfolding analyze_sentiment_def Let_def strip_Nil_iff
  by auto

theorem analyze_sentiment_fallback_witness:
  "analyze_sentiment (\<lambda>c. False) (\<lambda>t. Inr (0, 0, 1)) 0 [32, 9, 10] = ((5.0, NEUTRAL), []) \<and>
   fst (analyze_sentiment (\<lambda>c. False) (\<lambda>t. Inl ModelError) 0 (py ''good'')) = (5.0, NEUTRAL)"
proof -
  have sp: "\<forall>c\<in>set [32, 9, 10]. is_space c" by (simp add: is_space_def)
  have e: "(\<lambda>t. Inl ModelError :: py_error + rat \<times> rat \<times> rat)
      (preprocess_text (\<lambda>c. False) (py ''good'')) = Inl ModelError" by simp
  from analyze_sentiment_fallback [of "[32, 9, 10]" "\<lambda>c. False" "\<lambda>t. Inr (0, 0, 1)" 0 ModelError]
    analyze_sentiment_fallback [of "py ''good''" "\<lambda>c. False" "\<lambda>t. Inl ModelError" 0 ModelError]
    sp e
  show ?thesis by blast
qed

section \<open>Properties of the session aggregator\<close>

lemma not_day_path_outliers:
  "\<not> is_day_path cfg (path_join (LOG_DIRECTORY cfg) (py ''outliers_'' @ m @ py ''.json''))"
proof -
  define L where "L = LOG_DIRECTORY cfg"
  define b where "b = tl (py ''outliers_'') @ m @ py ''.json''"
  define q where "q = tl (tl (py ''/sentiment_data_''))"
  have b: "py ''outliers_'' @ m @ py ''.json'' = 111 # b" by (simp add: b_def py_def)
  have pre: "py ''/sentiment_data_'' = 47 # 115 # q" by (simp add: q_def py_def)
  have "take (length (L @ 47 # 115 # q)) (L @ 111 # b) \<noteq> L @ 47 # 115 # q"
    by simp
  moreover have "take (length (L @ 47 # 115 # q)) (L @ 47 # 111 # b) \<noteq> L @ 47 # 115 # q"
    by simp
  ultimately show ?thesis
    unfolding is_day_path_def Let_def path_join_def b pre L_def [symmetric]
    by auto
qed

lemma is_day_path_data_file: "is_day_path cfg (data_file cfg d)"
proof -
  define pre where "pre = LOG_DIRECTORY cfg @ py ''/sentiment_data_''"
  have p: "data_file cfg d = pre @ d @ py ''.json''" by (simp add: data_file_def pre_def)
  have "drop (length (pre @ d @ py ''.json'') - length (py ''.json'')) (pre @ d @ py ''.json'')
      = py ''.json''" by simp
  then show ?thesis
    unfolding is_day_path_def Let_def p pre_def [symmetric] by simp
qed

lemma save_to_json_session [simp]:
  "session_messages (save_to_json cfg d f s) = session_messages s"
  by (simp add: save_to_json_def write_file_def Let_def
      split: option.splits fcontent.splits pyval.splits)

lemma save_to_json_files:
  "p \<noteq> path_join (LOG_DIRECTORY cfg) f \<Longrightarrow> files (save_to_json cfg d f s) p = files s p"
  by (simp add: save_to_json_def write_file_def Let_def
      split: option.splits fcontent.splits pyval.splits)

lemma save_to_json_writes:
  "writes (save_to_json cfg d f s) = writes s \<or>
   (\<exists>doc. writes (save_to_json cfg d f s) = writes s @ [(path_join (LOG_DIRECTORY cfg) f, doc)])"
  by (simp add: save_to_json_def write_file_def Let_def
      split: option.splits fcontent.splits pyval.splits)

lemma save_to_json_outliers_day:
  "is_day_path cfg p \<Longrightarrow>
     files (save_to_json cfg d (py ''outliers_'' @ m @ py ''.json'') s) p = files s p"
  using not_day_path_outliers [of cfg m] by (intro save_to_json_files) auto

lemma save_to_json_outliers_writes:
  "day_writes cfg (writes (save_to_json cfg d (py ''outliers_'' @ m @ py ''.json'') s))
     = day_writes cfg (writes s)"
  using save_to_json_writes [of cfg d "py ''outliers_'' @ m @ py ''.json''" s]
    not_day_path_outliers [of cfg m]
  by (auto simp: day_writes_def)

lemma appended_session: "session_messages (appended cfg amb r out s) = session_messages s @ [r]"
  by (simp add: appended_def)

lemma appended_files:
  "is_day_path cfg p \<Longrightarrow> files (appended cfg amb r out s) p = files s p"
  by (simp add: appended_def save_to_json_outliers_day)

lemma appended_writes:
  "day_writes cfg (writes (appended cfg amb r out s)) = day_writes cfg (writes s)"
  by (simp add: appended_def save_to_json_outliers_writes)

lemma handle_message_accepted:
  assumes "accepted cfg m"
  shows "\<exists>out. handle_message cfg isalnum predict amb (Some m) s =
     (let s2 = appended cfg amb (record_of isalnum predict (amb, m)) out s
      in if length (session_messages s2) mod 10 = 0
         then save_current_data cfg (now_day amb) s2 else s2)"
proof -
  from assms obtain body where mt: "msg_text m = Some body" "body \<noteq> []"
    and chat: "MONITOR_CHAT_ID cfg = 0 \<or> chat_id m = MONITOR_CHAT_ID cfg"
    by (auto simp: accepted_def split: option.splits)
  obtain sc lb where a: "fst (analyze_sentiment isalnum predict (jitter amb) body) = (sc, lb)"
    by (cases "fst (analyze_sentiment isalnum predict (jitter amb) body)") auto
  have r: "record_of isalnum predict (amb, m) = message_data m body sc lb"
    by (simp add: record_of_def mt a)
  have "handle_message cfg isalnum predict amb (Some m) s =
     (let s2 = appended cfg amb (record_of isalnum predict (amb, m))
                 (is_outlier sc (SENTIMENT_THRESHOLD_LOW cfg) (SENTIMENT_THRESHOLD_HIGH cfg)) s
      in if length (session_messages s2) mod 10 = 0
         then save_current_data cfg (now_day amb) s2 else s2)"
    using chat by (auto simp: handle_message_def mt a r appended_def Let_def)
  then show ?thesis by blast
qed

lemma handle_message_buffering:
  assumes "accepted cfg m" "Suc (length (session_messages s)) mod 10 \<noteq> 0"
  shows "session_messages (handle_message cfg isalnum predict amb (Some m) s)
           = session_messages s @ [record_of isalnum predict (amb, m)]"
    and "is_day_path cfg p \<Longrightarrow>
           files (handle_message cfg isalnum predict amb (Some m) s) p = files s p"
    and "day_writes cfg (writes (handle_message cfg isalnum predict amb (Some m) s))
           = day_writes cfg (writes s)"
proof -
  from handle_message_accepted [OF assms(1), of isalnum predict amb s] obtain out where
    h: "handle_message cfg isalnum predict amb (Some m) s =
     (let s2 = appended cfg amb (record_of isalnum predict (amb, m)) out s
      in if length (session_messages s2) mod 10 = 0
         then save_current_data cfg (now_day amb) s2 else s2)" by blast
  have "length (session_messages (appended cfg amb (record_of isalnum predict (amb, m)) out s))
      mod 10 \<noteq> 0"
    using assms(2) by (simp add: appended_session)
  then have h': "handle_message cfg isalnum predict amb (Some m) s =
      appended cfg amb (record_of isalnum predict (amb, m)) out s"
    unfolding h Let_def by simp
  show "session_messages (handle_message cfg isalnum predict amb (Some m) s)
           = session_messages s @ [record_of isalnum predict (amb, m)]"
    unfolding h' by (rule appended_session)
  show "is_day_path cfg p \<Longrightarrow>
           files (handle_message cfg isalnum predict amb (Some m) s) p = files s p"
    unfolding h' by (rule appended_files)
  show "day_writes cfg (writes (handle_message cfg isalnum predict amb (Some m) s))
           = day_writes cfg (writes s)"
    unfolding h' by (rule appended_writes)
qed

lemma save_current_data_flush:
  assumes "session_messages s \<noteq> []"
    and "load_existing (files s (data_file cfg day)) = Inr (PList existing)"
  shows "save_current_data cfg day s =
     (write_file (data_file cfg day) (PList (existing @ session_messages s)) s)
       \<lparr>session_messages := []\<rparr>"
  using assms by (simp add: save_current_data_def list_concat_def)

lemma handle_message_flush:
  assumes "accepted cfg m" "Suc (length (session_messages s)) mod 10 = 0"
    and "load_existing (files s (data_file cfg (now_day amb))) = Inr (PList existing)"
  shows "session_messages (handle_message cfg isalnum predict amb (Some m) s) = []"
    and "files (handle_message cfg isalnum predict amb (Some m) s) (data_file cfg (now_day amb))
           = Some (Doc (PList (existing @ session_messages s @
                                 [record_of isalnum predict (amb, m)])))"
    and "day_writes cfg (writes (handle_message cfg isalnum predict amb (Some m) s))
           = day_writes cfg (writes s) @
             [(data_file cfg (now_day amb),
               PList (existing @ session_messages s @ [record_of isalnum predict (amb, m)]))]"
proof -
  define r where "r = record_of isalnum predict (amb, m)"
  from handle_message_accepted [OF assms(1), of isalnum predict amb s] obtain out where
    h: "handle_message cfg isalnum predict amb (Some m) s =
     (let s2 = appended cfg amb r out s
      in if length (session_messages s2) mod 10 = 0
         then save_current_data cfg (now_day amb) s2 else s2)"
    unfolding r_def by blast
  define s2 where "s2 = appended cfg amb r out s"
  have sm: "session_messages s2 = session_messages s @ [r]"
    unfolding s2_def by (rule appended_session)
  have ld: "load_existing (files s2 (data_file cfg (now_day amb))) = Inr (PList existing)"
    unfolding s2_def using assms(3) by (simp add: appended_files is_day_path_data_file)
  have "length (session_messages s2) mod 10 = 0" using assms(2) by (simp add: sm)
  then have "handle_message cfg isalnum predict amb (Some m) s
      = save_current_data cfg (now_day amb) s2"
    unfolding h Let_def s2_def by simp
  also have "\<dots> = (write_file (data_file cfg (now_day amb))
        (PList (existing @ session_messages s2)) s2)\<lparr>session_messages := []\<rparr>"
    by (rule save_current_data_flush) (simp_all add: sm ld)
  finally have h': "handle_message cfg isalnum predict amb (Some m) s =
      (write_file (data_file cfg (now_day amb))
        (PList (existing @ session_messages s @ [r])) s2)\<lparr>session_messages := []\<rparr>"
    by (simp add: sm)
  show "session_messages (handle_message cfg isalnum predict amb (Some m) s) = []"
    unfolding h' by simp
  show "files (handle_message cfg isalnum predict amb (Some m) s) (data_file cfg (now_day amb))
           = Some (Doc (PList (existing @ session_messages s @
                                 [record_of isalnum predict (amb, m)])))"
    unfolding h' r_def by (simp add: write_file_def)
  have "day_writes cfg (writes s2) = day_writes cfg (writes s)"
    unfolding s2_def by (rule appended_writes)
  then show "day_writes cfg (writes (handle_message cfg isalnum predict amb (Some m) s))
           = day_writes cfg (writes s) @
             [(data_file cfg (now_day amb),
               PList (existing @ session_messages s @ [record_of isalnum predict (amb, m)]))]"
    unfolding h' r_def by (simp add: write_file_def day_writes_def is_day_path_data_file)
qed

lemma deliver_buffering:
  assumes "\<forall>ev\<in>set evs. accepted cfg (snd ev)"
    and "length (session_messages s) + length evs < 10"
  shows "session_messages (deliver cfg isalnum predict evs s)
           = session_messages s @ map (record_of isalnum predict) evs \<and>
         (\<forall>p. is_day_path cfg p \<longrightarrow> files (deliver cfg isalnum predict evs s) p = files s p) \<and>
         day_writes cfg (writes (deliver cfg isalnum predict evs s)) = day_writes cfg (writes s)"
  using assms
proof (induction evs arbitrary: s)
  case Nil
  show ?case by (simp add: deliver_def)
next
  case (Cons ev evs)
  obtain amb m where ev: "ev = (amb, m)" by (cases ev)
  define s' where "s' = handle_message cfg isalnum predict amb (Some m) s"
  have acc: "accepted cfg m" using Cons.prems(1) ev by simp
  have small: "Suc (length (session_messages s)) mod 10 \<noteq> 0"
    using Cons.prems(2) by simp
  note step = handle_message_buffering [OF acc small,
      where isalnum = isalnum and predict = predict and amb = amb, folded s'_def]
  have d: "deliver cfg isalnum predict (ev # evs) s = deliver cfg isalnum predict evs s'"
    by (simp add: deliver_def ev s'_def)
  have "\<forall>ev\<in>set evs. accepted cfg (snd ev)" using Cons.prems(1) by simp
  moreover have "length (session_messages s') + length evs < 10"
    using Cons.prems(2) by (simp add: step(1))
  ultimately have ih: "session_messages (deliver cfg isalnum predict evs s')
           = session_messages s' @ map (record_of isalnum predict) evs \<and>
         (\<forall>p. is_day_path cfg p \<longrightarrow> files (deliver cfg isalnum predict evs s') p = files s' p) \<and>
         day_writes cfg (writes (deliver cfg isalnum predict evs s')) = day_writes cfg (writes s')"
    by (rule Cons.IH)
  show ?case unfolding d using ih step by (simp add: ev)
qed

lemma save_current_data_not_array:
  "files s (data_file cfg day) = Some (Doc (PDict d)) \<Longrightarrow> save_current_data cfg day s = s"
  by (simp add: save_current_data_def load_existing_def list_concat_def)

lemma handle_message_flush_skipped:
  assumes "accepted cfg m"
    and "files s (data_file cfg (now_day amb)) = Some (Doc (PDict d))"
  shows "session_messages (handle_message cfg isalnum predict amb (Some m) s)
           = session_messages s @ [record_of isalnum predict (amb, m)]"
    and "day_writes cfg (writes (handle_message cfg isalnum predict amb (Some m) s))
           = day_writes cfg (writes s)"
proof -
  define r where "r = record_of isalnum predict (amb, m)"
  from handle_message_accepted [OF assms(1), of isalnum predict amb s] obtain out where
    h: "handle_message cfg isalnum predict amb (Some m) s =
     (let s2 = appended cfg amb r out s
      in if length (session_messages s2) mod 10 = 0
         then save_current_data cfg (now_day amb) s2 else s2)"
    unfolding r_def by blast
  define s2 where "s2 = appended cfg amb r out s"
  have "files s2 (data_file cfg (now_day amb)) = Some (Doc (PDict d))"
    unfolding s2_def using assms(2) by (simp add: appended_files is_day_path_data_file)
  then have "save_current_data cfg (now_day amb) s2 = s2"
    by (rule save_current_data_not_array)
  then have h': "handle_message cfg isalnum predict amb (Some m) s = s2"
    unfolding h Let_def s2_def [symmetric] by simp
  show "session_messages (handle_message cfg isalnum predict amb (Some m) s)
           = session_messages s @ [record_of isalnum predict (amb, m)]"
    unfolding h' s2_def r_def by (rule appended_session)
  show "day_writes cfg (writes (handle_message cfg isalnum predict amb (Some m) s))
           = day_writes cfg (writes s)"
    unfolding h' s2_def by (rule appended_writes)
qed

text \<open>
  The flush depends on what the day's store file holds: \<open>save_current_data\<close> adds the
  buffer to the document read from the file, and a document that is not a list cannot
  take it (\<open>TypeError\<close>, logged by the handler). With the JSON object \<open>{}\<close> in the
  day's file, nine accepted messages and then a tenth leave ten records in the buffer
  and no write to a per-day store.
\<close>

theorem flush_skipped_on_object_store:
  "session_messages example_object_store = [] \<and>
   length example_events = 9 \<and>
   length (session_messages
     (handle_message (default_config 7) example_isalnum example_predict example_ambient
        (Some (example_message 9))
        (deliver (default_config 7) example_isalnum example_predict example_events
           example_object_store))) = 10 \<and>
   day_writes (default_config 7) (writes
     (handle_message (default_config 7) example_isalnum example_predict example_ambient
        (Some (example_message 9))
        (deliver (default_config 7) example_isalnum example_predict example_events
           example_object_store))) = []"
proof -
  define s9 where "s9 = deliver (default_config 7) example_isalnum example_predict
    example_events example_object_store"
  have a: "session_messages example_object_store = []"
    by (simp add: example_object_store_def init_bot_def)
  have b: "length example_events = 9" by (simp add: example_events_def)
  have acc: "accepted (default_config 7) (example_message i)" for i
    by (simp add: accepted_def example_message_def default_config_def py_def)
  have c: "\<forall>ev\<in>set example_events. accepted (default_config 7) (snd ev)"
    using acc by (simp add: example_events_def)
  have w0: "day_writes (default_config 7) (writes example_object_store) = []"
    by (simp add: day_writes_def example_object_store_def init_bot_def)
  have d0: "now_day example_ambient = py ''2024-05-01''" by (simp add: example_ambient_def)
  have f0: "files example_object_store (data_file (default_config 7) (now_day example_ambient))
      = Some (Doc (PDict []))"
    unfolding d0 by (simp add: example_object_store_def init_bot_def)
  have "length (session_messages example_object_store) + length example_events < 10"
    using a b by simp
  from deliver_buffering [OF c this, of example_isalnum example_predict, folded s9_def]
  have sm9: "session_messages s9 = map (record_of example_isalnum example_predict) example_events"
    and f9: "\<forall>p. is_day_path (default_config 7) p \<longrightarrow> files s9 p = files example_object_store p"
    and w9: "day_writes (default_config 7) (writes s9) = []"
    using a w0 by simp_all
  have f9': "files s9 (data_file (default_config 7) (now_day example_ambient))
      = Some (Doc (PDict []))"
    using f9 f0 is_day_path_data_file by simp
  note sk = handle_message_flush_skipped [OF acc [of 9] f9',
      where isalnum = example_isalnum and predict = example_predict]
  show ?thesis
    unfolding s9_def [symmetric] sk using a b w9 by (simp add: sm9)
qed

text \<open>
  Claim C7, with the condition the flush depends on. From an empty session buffer, nine
  accepted messages are buffered and none of them triggers a write to a per-day store;
  provided that the day's store file is absent, blank or holds a JSON array, the tenth
  triggers exactly one, which writes the records already in the day's file followed by
  all ten buffered records, and leaves the buffer empty.
\<close>

theorem flush_on_tenth_record:
  assumes "session_messages s0 = []"
    and "length evs = 9"
    and "\<forall>ev\<in>set evs. accepted cfg (snd ev)"
    and "accepted cfg m10"
    and "load_existing (files s0 (data_file cfg (now_day amb10))) = Inr (PList existing)"
  shows "let s9 = deliver cfg isalnum predict evs s0;
             s10 = handle_message cfg isalnum predict amb10 (Some m10) s9;
             recs = map (record_of isalnum predict) (evs @ [(amb10, m10)])
         in length (session_messages s9) = 9 \<and>
            session_messages s9 = map (record_of isalnum predict) evs \<and>
            day_writes cfg (writes s9) = day_writes cfg (writes s0) \<and>
            length recs = 10 \<and>
            day_writes cfg (writes s10) =
              day_writes cfg (writes s0) @
                [(data_file cfg (now_day amb10), PList (existing @ recs))] \<and>
            files s10 (data_file cfg (now_day amb10)) = Some (Doc (PList (existing @ recs))) \<and>
            session_messages s10 = []"
proof -
  define s9 where "s9 = deliver cfg isalnum predict evs s0"
  have "length (session_messages s0) + length evs < 10" using assms(1,2) by simp
  from deliver_buffering [OF assms(3) this, of isalnum predict, folded s9_def]
  have sm9: "session_messages s9 = map (record_of isalnum predict) evs"
    and f9: "\<forall>p. is_day_path cfg p \<longrightarrow> files s9 p = files s0 p"
    and w9: "day_writes cfg (writes s9) = day_writes cfg (writes s0)"
    using assms(1) by simp_all
  have len9: "length (session_messages s9) = 9" using assms(2) by (simp add: sm9)
  have due: "Suc (length (session_messages s9)) mod 10 = 0" by (simp add: len9)
  have ld: "load_existing (files s9 (data_file cfg (now_day amb10))) = Inr (PList existing)"
    using assms(5) f9 is_day_path_data_file by simp
  note fl = handle_message_flush [OF assms(4) due ld,
      where isalnum = isalnum and predict = predict]
  show ?thesis
    unfolding Let_def s9_def [symmetric]
    using len9 w9 fl assms(2) by (simp add: sm9)
qed

theorem flush_on_tenth_record_witness:
  "let s9 = deliver (default_config 7) (\<lambda>c. False) (\<lambda>t. Inr (0, 1, 0))
              (map (\<lambda>i. (example_ambient, example_message (int i))) [0..<9])
              (init_bot Map.empty);
       s10 = handle_message (default_config 7) (\<lambda>c. False) (\<lambda>t. Inr (0, 1, 0))
               example_ambient (Some (example_message 9)) s9
   in length (session_messages s9) = 9 \<and>
      day_writes (default_config 7) (writes s9) = [] \<and>
      length (day_writes (default_config 7) (writes s10)) = 1 \<and>
      session_messages s10 = []"
proof -
  have a: "session_messages (init_bot Map.empty) = []" by (simp add: init_bot_def)
  have b: "length (map (\<lambda>i. (example_ambient, example_message (int i))) [0..<9]) = 9"
    by simp
  have acc: "accepted (default_config 7) (example_message i)" for i
    by (simp add: accepted_def example_message_def default_config_def py_def)
  have c: "\<forall>ev\<in>set (map (\<lambda>i. (example_ambient, example_message (int i))) [0..<9]).
       accepted (default_config 7) (snd ev)"
    using acc by simp
  have d: "load_existing (files (init_bot Map.empty)
       (data_file (default_config 7) (now_day example_ambient))) = Inr (PList [])"
    by (simp add: load_existing_def init_bot_def)
  have w0: "day_writes (default_config 7) (writes (init_bot Map.empty)) = []"
    by (simp add: day_writes_def init_bot_def)
  from flush_on_tenth_record [OF a b c acc [of 9] d,
      where isalnum = "\<lambda>c. False" and predict = "\<lambda>t. Inr (0, 1, 0)"]
  show ?thesis
    unfolding Let_def by (simp add: w0)
qed

subsection \<open>A store file that is not JSON\<close>

lemma save_current_data_corrupt:
  "session_messages s \<noteq> [] \<Longrightarrow> files s (data_file cfg day) = Some Garbage \<Longrightarrow>
     save_current_data cfg day s = s"
  by (simp add: save_current_data_def load_existing_def)

lemma save_to_json_corrupt_store:
  "files s (path_join (LOG_DIRECTORY cfg) f) = Some Garbage \<Longrightarrow>
     save_to_json cfg d f s = write_file (path_join (LOG_DIRECTORY cfg) f) (PList [d]) s"
  by (simp add: save_to_json_def)

text \<open>
  Claim C8 says that every store treats a file that is not JSON as empty and overwrites
  it. \<open>_save_to_json\<close> (outlier and daily-report stores) does, as
  \<open>save_to_json_corrupt_store\<close> shows. \<open>save_current_data\<close> (per-day store) does not:
  \<open>json.loads\<close> raises, the flush is skipped, the file keeps its content and the
  buffer is not cleared. Here it is run on one buffered record and a day file that is
  not JSON.
\<close>

theorem save_current_data_corrupt_store:
  "save_current_data (default_config 7) (py ''2024-05-01'')
      ((init_bot [data_file (default_config 7) (py ''2024-05-01'') \<mapsto> Garbage])
         \<lparr>session_messages := [example_record 1 5.0 NEUTRAL]\<rparr>)
     = (init_bot [data_file (default_config 7) (py ''2024-05-01'') \<mapsto> Garbage])
         \<lparr>session_messages := [example_record 1 5.0 NEUTRAL]\<rparr>"
  by (simp add: save_current_data_def load_existing_def init_bot_def)

subsection \<open>The daily report\<close>

lemma message_data_no_is_outlier:
  "getitem (message_data m body sc lb) (py ''is_outlier'') = Inl KeyError"
  by (simp add: message_data_def getitem_def py_def)

lemma message_data_timestamp:
  "getitem (message_data m body sc lb) (py ''timestamp'') = Inr (PStr (date_iso m))"
  by (simp add: message_data_def getitem_def py_def)

lemma message_data_score:
  "getitem (message_data m body sc lb) (py ''sentiment_score'') = Inr (PFloat sc)"
  by (simp add: message_data_def getitem_def py_def)

lemma filter_err_total:
  "\<forall>x\<in>set xs. \<exists>b. p x = Inr b \<Longrightarrow> \<exists>ys. filter_err p xs = Inr ys \<and> set ys \<subseteq> set xs"
proof (induction xs)
  case Nil
  show ?case by simp
next
  case (Cons x xs)
  from Cons.prems obtain b where b: "p x = Inr b" by auto
  from Cons obtain ys where ys: "filter_err p xs = Inr ys" "set ys \<subseteq> set xs" by auto
  show ?case using b ys by auto
qed

lemma map_err_total:
  "\<forall>x\<in>set xs. \<exists>y. f x = Inr y \<and> P y \<Longrightarrow> \<exists>ys. map_err f xs = Inr ys \<and> (\<forall>y\<in>set ys. P y)"
proof (induction xs)
  case Nil
  show ?case by simp
next
  case (Cons x xs)
  from Cons.prems obtain y where y: "f x = Inr y" "P y" by auto
  from Cons obtain ys where ys: "map_err f xs = Inr ys" "\<forall>y\<in>set ys. P y" by auto
  show ?case using y ys by auto
qed

lemma filter_err_raises:
  "xs \<noteq> [] \<Longrightarrow> \<forall>x\<in>set xs. p x = Inl e \<Longrightarrow> filter_err p xs = Inl e"
  by (cases xs) simp_all

text \<open>
  Whatever records \<open>handle_message\<close> has buffered, the body of the daily report either
  finds no message of today or raises \<open>KeyError\<close>: it never produces a report.
\<close>

lemma daily_report_body_never_reports:
  assumes "\<forall>r\<in>set msgs. \<exists>m body sc lb. r = message_data m body sc lb"
  shows "daily_report_body day generated_at msgs = Inr None \<or>
         daily_report_body day generated_at msgs = Inl KeyError"
proof -
  define is_rec where "is_rec r \<longleftrightarrow> (\<exists>m body sc lb. r = message_data m body sc lb)" for r
  have "\<forall>r\<in>set msgs. \<exists>b. (case getitem r (py ''timestamp'') of
            Inl e \<Rightarrow> Inl e | Inr ts \<Rightarrow> startswith ts day) = Inr b"
    using assms by (auto simp: message_data_timestamp startswith_def)
  from filter_err_total [OF this] obtain tm where
    tm: "filter_err (\<lambda>msg. case getitem msg (py ''timestamp'') of
            Inl e \<Rightarrow> Inl e | Inr ts \<Rightarrow> startswith ts day) msgs = Inr tm"
    and sub: "set tm \<subseteq> set msgs" by blast
  have recs: "\<forall>r\<in>set tm. is_rec r" using assms sub by (auto simp: is_rec_def)
  show ?thesis
  proof (cases "tm = []")
    case True
    then show ?thesis by (simp add: daily_report_body_def tm)
  next
    case False
    have "\<forall>r\<in>set tm. \<exists>y. getitem r (py ''sentiment_score'') = Inr y \<and> (\<exists>sc. y = PFloat sc)"
      using recs by (auto simp: is_rec_def message_data_score)
    from map_err_total [OF this] obtain scores where
      sc: "map_err (\<lambda>msg. getitem msg (py ''sentiment_score'')) tm = Inr scores"
      and fl: "\<forall>y\<in>set scores. \<exists>sc. y = PFloat sc" by blast
    have "\<forall>s\<in>set scores. \<exists>y. (case num_of s of Inl e \<Rightarrow> Inl e | Inr r \<Rightarrow> Inr (s, r)) = Inr y \<and> True"
      using fl by (auto simp: num_of_def)
    from map_err_total [OF this] obtain nums where
      nums: "map_err (\<lambda>s. case num_of s of Inl e \<Rightarrow> Inl e | Inr r \<Rightarrow> Inr (s, r)) scores = Inr nums"
      by blast
    have "\<forall>r\<in>set tm. (case getitem r (py ''is_outlier'') of
              Inl e \<Rightarrow> Inl e | Inr v \<Rightarrow> Inr (truthy v)) = Inl KeyError"
      using recs by (auto simp: is_rec_def message_data_no_is_outlier)
    from filter_err_raises [OF False this]
    have out: "filter_err (\<lambda>msg. case getitem msg (py ''is_outlier'') of
              Inl e \<Rightarrow> Inl e | Inr v \<Rightarrow> Inr (truthy v)) tm = Inl KeyError" .
    show ?thesis
      unfolding daily_report_body_def tm using False by (simp add: sc nums out)
  qed
qed

lemma example_record_timestamp:
  "getitem (example_record i sc lb) (py ''timestamp'') = Inr (PStr (py ''2024-05-01T10:00:00''))"
  by (simp add: example_record_def message_data_def getitem_def example_message_def py_def)

lemma example_record_score:
  "getitem (example_record i sc lb) (py ''sentiment_score'') = Inr (PFloat sc)"
  by (simp add: example_record_def message_data_def getitem_def py_def)

lemma example_record_is_outlier:
  "getitem (example_record i sc lb) (py ''is_outlier'') = Inl KeyError"
  by (simp add: example_record_def message_data_def getitem_def py_def)

lemma example_today:
  "startswith (PStr (py ''2024-05-01T10:00:00'')) (py ''2024-05-01'') = Inr True"
  by (simp add: startswith_def py_def)

text \<open>
  Claim C2 says that the daily report over three records of today with scores 2.0, 5.0
  and 9.0 appends one report. The records \<open>handle_message\<close> builds have no key
  \<open>is_outlier\<close>, which \<open>generate_daily_report\<close> reads from each of them: the body
  raises \<open>KeyError\<close>, and the state, with its files, is left as it was.
\<close>

theorem daily_report_key_error:
  "daily_report_body (now_day example_ambient) (now_iso example_ambient)
      [example_record 1 2.0 NEGATIVE, example_record 2 5.0 NEUTRAL, example_record 3 9.0 POSITIVE]
     = Inl KeyError \<and>
   generate_daily_report (default_config 7) example_ambient
      ((init_bot Map.empty)\<lparr>session_messages :=
         [example_record 1 2.0 NEGATIVE, example_record 2 5.0 NEUTRAL,
          example_record 3 9.0 POSITIVE]\<rparr>)
     = (init_bot Map.empty)\<lparr>session_messages :=
         [example_record 1 2.0 NEGATIVE, example_record 2 5.0 NEUTRAL,
          example_record 3 9.0 POSITIVE]\<rparr>"
proof -
  have day: "now_day example_ambient = py ''2024-05-01''" by (simp add: example_ambient_def)
  have body: "daily_report_body (now_day example_ambient) (now_iso example_ambient)
      [example_record 1 2.0 NEGATIVE, example_record 2 5.0 NEUTRAL, example_record 3 9.0 POSITIVE]
     = Inl KeyError"
    unfolding daily_report_body_def day
    by (simp add: example_record_timestamp example_today example_record_score
        example_record_is_outlier num_of_def)
  have sm: "session_messages ((init_bot Map.empty)\<lparr>session_messages :=
         [example_record 1 2.0 NEGATIVE, example_record 2 5.0 NEUTRAL,
          example_record 3 9.0 POSITIVE]\<rparr>)
     = [example_record 1 2.0 NEGATIVE, example_record 2 5.0 NEUTRAL, example_record 3 9.0 POSITIVE]"
    by (simp add: init_bot_def)
  show ?thesis
    unfolding generate_daily_report_def sm body by simp
qed

end
